theory Spec2Isabelle
  imports Main "HOL-Library.Word"
begin

section \<open>Data model (types.ts)\<close>

text \<open>
  The interfaces of \<^verbatim>\<open>src/types.ts\<close>. An optional property \<^verbatim>\<open>f?: T\<close> is a field of
  type \<open>T option\<close>, with \<open>None\<close> for a property the object does not have. String-literal
  unions that the program only stores are datatypes; \<^verbatim>\<open>LayoutSection.type\<close> stays a
  string, because at run time it is the key of a lookup that sections coming from the
  generation service or from storage reach with any text.
\<close>

record TextElementStyle =
  fontSize :: "string option"
  fontWeight :: "string option"
  color :: "string option"
  fontFamily :: "string option"

record AccessibilitySettings =
  highContrast :: bool
  reducedMotion :: bool
  showAriaLabels :: bool

record Button =
  text' :: string
  link :: string
  ariaLabel :: "string option"

record Item =
  title :: "string option"
  description :: "string option"
  icon :: "string option"
  image :: "string option"
  price :: "string option"
  author :: "string option"
  role :: "string option"
  date :: "string option"
  ariaLabel :: "string option"

record Content =
  title :: "string option"
  subtitle :: "string option"
  description :: "string option"
  primaryButton :: "Button option"
  secondaryButton :: "Button option"
  items :: "Item list option"

datatype Theme = light | dark | accent | glass

datatype Padding = small | medium | large

datatype Alignment = left | center | right

record Typography =
  title :: "TextElementStyle option"
  subtitle :: "TextElementStyle option"
  description :: "TextElementStyle option"

record Style =
  theme :: Theme
  padding :: Padding
  alignment :: Alignment
  backgroundImage :: "string option"
  typography :: "Typography option"

record LayoutSection =
  id' :: string
  type :: string
  content :: Content
  style :: Style

record DesignSystem =
  primaryColor :: string
  borderRadius :: string
  fontFamily :: string
  accessibility :: AccessibilitySettings

text \<open>The three text elements a typography override can address.\<close>

datatype TextElement = Title | Subtitle | Description

text \<open>The three keys of the accessibility record that the toggles of the side bar use.\<close>

datatype AccessibilityKey = HighContrast | ReducedMotion | ShowAriaLabels

text \<open>What the generation service resolves with: \<^verbatim>\<open>{ sections, designSystem }\<close>.\<close>

record LayoutData =
  sections :: "LayoutSection list"
  designSystem :: DesignSystem

text \<open>
  The outcome of an awaited call to the generation service (\<^verbatim>\<open>services/gemini\<close>):
  the promise resolves with a value or rejects with an error.
\<close>

datatype 'a outcome = Resolved 'a | Rejected string

datatype Tab = design | layers | gallery

text \<open>
  The state hooks of \<^verbatim>\<open>App\<close> that the handlers below read or write, and the
  lines written by \<^verbatim>\<open>console.error\<close>.
\<close>

record AppState =
  prompt :: string
  sections :: "LayoutSection list"
  designSystem :: DesignSystem
  isGenerating :: bool
  activeTab :: Tab
  selectedId :: "string option"
  console :: "string list"


text \<open>The initial value of the \<^verbatim>\<open>designSystem\<close> hook.\<close>

definition default_designSystem :: DesignSystem where
  "default_designSystem =
     \<lparr>primaryColor = ''#4f46e5'', borderRadius = ''0.75rem'', fontFamily = ''Inter'',
      accessibility = \<lparr>highContrast = False, reducedMotion = False, showAriaLabels = True\<rparr>\<rparr>"


section \<open>Typography patch (updateSectionTypography)\<close>

text \<open>The empty object literal \<^verbatim>\<open>{}\<close> at the two types it is used at.\<close>

definition empty_style :: TextElementStyle where
  "empty_style = \<lparr>fontSize = None, fontWeight = None, color = None, fontFamily = None\<rparr>"

definition empty_typography :: Typography where
  "empty_typography = \<lparr>Typography.title = None, subtitle = None, description = None\<rparr>"

text \<open>\<^verbatim>\<open>x || {}\<close>: an object is truthy, a missing property is not.\<close>

definition or_else :: "'a option \<Rightarrow> 'a \<Rightarrow> 'a" where
  "or_else x d = (case x of Some v \<Rightarrow> v | None \<Rightarrow> d)"

text \<open>
  One property of \<^verbatim>\<open>{ ...a, ...b }\<close>: the value of \<open>b\<close> where \<open>b\<close> has the
  property, the value of \<open>a\<close> otherwise. A property that is present holds a string: the
  two callers pass \<^verbatim>\<open>{ fontSize: e.target.value }\<close> and \<^verbatim>\<open>{ color: e.target.value }\<close>.
\<close>

definition spread_field :: "'a option \<Rightarrow> 'a option \<Rightarrow> 'a option" where
  "spread_field a b = (case b of Some v \<Rightarrow> Some v | None \<Rightarrow> a)"

text \<open>\<^verbatim>\<open>{ ...a, ...b }\<close> on two element styles.\<close>

definition spread_style :: "TextElementStyle \<Rightarrow> TextElementStyle \<Rightarrow> TextElementStyle" where
  "spread_style a b =
     \<lparr>fontSize = spread_field (fontSize a) (fontSize b),
      fontWeight = spread_field (fontWeight a) (fontWeight b),
      color = spread_field (color a) (color b),
      fontFamily = spread_field (TextElementStyle.fontFamily a) (TextElementStyle.fontFamily b)\<rparr>"

text \<open>\<^verbatim>\<open>currentTypography[element]\<close> and \<^verbatim>\<open>{ ...currentTypography, [element]: v }\<close>.\<close>

fun get_element :: "Typography \<Rightarrow> TextElement \<Rightarrow> TextElementStyle option" where
  "get_element t Title = Typography.title t"
| "get_element t Subtitle = Typography.subtitle t"
| "get_element t Description = Typography.description t"

fun set_element :: "Typography \<Rightarrow> TextElement \<Rightarrow> TextElementStyle \<Rightarrow> Typography" where
  "set_element t Title v = t\<lparr>Typography.title := Some v\<rparr>"
| "set_element t Subtitle v = t\<lparr>Typography.subtitle := Some v\<rparr>"
| "set_element t Description v = t\<lparr>Typography.description := Some v\<rparr>"

text \<open>
  The callback of \<^verbatim>\<open>prev.map\<close> in \<^verbatim>\<open>updateSectionTypography\<close>: a section with
  another id is returned as it is; a section with the id is copied with a new
  \<^verbatim>\<open>style.typography\<close>.
\<close>

definition patch_section ::
  "string \<Rightarrow> TextElement \<Rightarrow> TextElementStyle \<Rightarrow> LayoutSection \<Rightarrow> LayoutSection" where
  "patch_section i element p s =
     (if id' s \<noteq> i then s
      else
        let currentTypography = or_else (typography (style s)) empty_typography
        in s\<lparr>style := (style s)\<lparr>typography :=
               Some (set_element currentTypography element
                      (spread_style (or_else (get_element currentTypography element) empty_style) p))\<rparr>\<rparr>)"

definition updateSectionTypography ::
  "string \<Rightarrow> TextElement \<Rightarrow> TextElementStyle \<Rightarrow> LayoutSection list \<Rightarrow> LayoutSection list" where
  "updateSectionTypography i element p prev = map (patch_section i element p) prev"


section \<open>Design system patches\<close>

text \<open>
  The three toggles of the side bar:
  \<^verbatim>\<open>{...designSystem, accessibility: {...designSystem.accessibility, [key]: !designSystem.accessibility[key]}}\<close>.
\<close>

fun toggle_flag :: "AccessibilityKey \<Rightarrow> AccessibilitySettings \<Rightarrow> AccessibilitySettings" where
  "toggle_flag HighContrast a = a\<lparr>highContrast := \<not> highContrast a\<rparr>"
| "toggle_flag ReducedMotion a = a\<lparr>reducedMotion := \<not> reducedMotion a\<rparr>"
| "toggle_flag ShowAriaLabels a = a\<lparr>showAriaLabels := \<not> showAriaLabels a\<rparr>"

definition toggleAccessibility :: "AccessibilityKey \<Rightarrow> DesignSystem \<Rightarrow> DesignSystem" where
  "toggleAccessibility k ds = ds\<lparr>accessibility := toggle_flag k (accessibility ds)\<rparr>"

text \<open>The two inputs of the global styles: \<^verbatim>\<open>{...designSystem, primaryColor: v}\<close> and
  \<^verbatim>\<open>{...designSystem, borderRadius: v}\<close>.\<close>

definition setPrimaryColor :: "string \<Rightarrow> DesignSystem \<Rightarrow> DesignSystem" where
  "setPrimaryColor v ds = ds\<lparr>primaryColor := v\<rparr>"

definition setBorderRadius :: "string \<Rightarrow> DesignSystem \<Rightarrow> DesignSystem" where
  "setBorderRadius v ds = ds\<lparr>borderRadius := v\<rparr>"


section \<open>Generation and refinement handlers\<close>

text \<open>
  \<^verbatim>\<open>String.prototype.trim\<close> removes white space and line terminators at both ends;
  among the characters of \<open>char\<close> these are TAB, LF, VT, FF, CR, SP and NBSP.
\<close>

definition is_space :: "char \<Rightarrow> bool" where
  "is_space c = (of_char c \<in> {9, 10, 11, 12, 13, 32, 160 :: nat})"

definition js_trim :: "string \<Rightarrow> string" where
  "js_trim s = rev (dropWhile is_space (rev (dropWhile is_space s)))"

text \<open>
  \<^verbatim>\<open>handleGenerate\<close>, given the outcome of \<^verbatim>\<open>generateLayout(prompt)\<close>. A blank
  prompt returns at once. Otherwise the busy flag is set; a resolved call stores both parts
  of the answer and opens the layers tab, a rejected one is caught and logged; the
  \<^verbatim>\<open>finally\<close> block clears the busy flag on both paths.
\<close>

definition handleGenerate :: "LayoutData outcome \<Rightarrow> AppState \<Rightarrow> AppState" where
  "handleGenerate r st =
     (if js_trim (prompt st) = [] then st
      else
        let st1 = st\<lparr>isGenerating := True\<rparr>;
            st2 = (case r of
                     Resolved data \<Rightarrow>
                       st1\<lparr>AppState.sections := LayoutData.sections data,
                           AppState.designSystem := LayoutData.designSystem data,
                           activeTab := layers\<rparr>
                   | Rejected err \<Rightarrow> st1\<lparr>console := console st1 @ [err]\<rparr>)
        in st2\<lparr>isGenerating := False\<rparr>)"

text \<open>
  \<^verbatim>\<open>handleRefine\<close>, given the outcome of \<^verbatim>\<open>refineLayout(sections, refinementPrompt)\<close>:
  of the answer only \<^verbatim>\<open>data.sections\<close> is stored.
\<close>

definition handleRefine :: "string \<Rightarrow> LayoutData outcome \<Rightarrow> AppState \<Rightarrow> AppState" where
  "handleRefine refinementPrompt r st =
     (if js_trim refinementPrompt = [] then st
      else
        let st1 = st\<lparr>isGenerating := True\<rparr>;
            st2 = (case r of
                     Resolved data \<Rightarrow> st1\<lparr>AppState.sections := LayoutData.sections data\<rparr>
                   | Rejected err \<Rightarrow> st1\<lparr>console := console st1 @ [err]\<rparr>)
        in st2\<lparr>isGenerating := False\<rparr>)"


section \<open>Section renderer registry and the preview\<close>

text \<open>The components imported from \<^verbatim>\<open>components/AdaptiveComponents\<close>, by name.\<close>

datatype Component =
  Navbar | Hero | Features | Pricing | Testimonials | Footer | Contact | CTA | Stats | FAQ
  | LogoCloud | Newsletter | Team | Timeline

text \<open>The object literal \<^verbatim>\<open>SECTION_COMPONENTS\<close>: its own properties, in source order.\<close>

definition SECTION_COMPONENTS :: "(string \<times> Component) list" where
  "SECTION_COMPONENTS =
     [(''navbar'', Navbar), (''hero'', Hero), (''features'', Features), (''pricing'', Pricing),
      (''testimonials'', Testimonials), (''footer'', Footer), (''contact'', Contact),
      (''cta'', CTA), (''stats'', Stats), (''faq'', FAQ), (''logoCloud'', LogoCloud),
      (''newsletter'', Newsletter), (''team'', Team), (''timeline'', Timeline)]"

text \<open>The values of the union \<^verbatim>\<open>LayoutSection.type\<close>, in the order of \<^verbatim>\<open>types.ts\<close>.\<close>

definition SECTION_TYPES :: "string list" where
  "SECTION_TYPES =
     [''navbar'', ''hero'', ''features'', ''stats'', ''pricing'', ''testimonials'', ''faq'',
      ''footer'', ''cta'', ''contact'', ''logoCloud'', ''newsletter'', ''team'', ''timeline'']"

text \<open>
  \<^verbatim>\<open>SECTION_COMPONENTS\<close> is written as an object literal, so its prototype is
  \<^verbatim>\<open>Object.prototype\<close>, and a property read \<^verbatim>\<open>SECTION_COMPONENTS[k]\<close> that finds no own
  property \<open>k\<close> goes on to the prototype. These are the property names of
  \<^verbatim>\<open>Object.prototype\<close>; each holds a function, or for \<^verbatim>\<open>__proto__\<close> an object.
\<close>

definition Object_prototype_keys :: "string list" where
  "Object_prototype_keys =
     [''constructor'', ''__defineGetter__'', ''__defineSetter__'', ''hasOwnProperty'',
      ''__lookupGetter__'', ''__lookupSetter__'', ''isPrototypeOf'', ''propertyIsEnumerable'',
      ''toString'', ''valueOf'', ''__proto__'', ''toLocaleString'']"

text \<open>What a property read on the registry yields when it is not \<^verbatim>\<open>undefined\<close>.\<close>

datatype member = Registered Component | Inherited string

text \<open>\<^verbatim>\<open>SECTION_COMPONENTS[k]\<close>; \<open>None\<close> is \<^verbatim>\<open>undefined\<close>.\<close>

definition lookup_component :: "string \<Rightarrow> member option" where
  "lookup_component k =
     (case map_of SECTION_COMPONENTS k of
        Some c \<Rightarrow> Some (Registered c)
      | None \<Rightarrow> if k \<in> set Object_prototype_keys then Some (Inherited k) else None)"

text \<open>
  One child of the preview column: the \<^verbatim>\<open>div\<close> with its key, whether it carries the
  sticky class (\<^verbatim>\<open>section.type === 'navbar'\<close>), and the element
  \<^verbatim>\<open><Component section designSystem isSelected />\<close> inside it.
\<close>

datatype Entry = Div string bool member LayoutSection DesignSystem bool

text \<open>
  The callback of \<^verbatim>\<open>sections.map\<close> in the preview: \<^verbatim>\<open>Component ? <div ...> : null\<close>.
  Functions and objects are truthy, \<^verbatim>\<open>undefined\<close> is not; \<open>None\<close> is \<^verbatim>\<open>null\<close>.
\<close>

definition renderSection :: "DesignSystem \<Rightarrow> string option \<Rightarrow> LayoutSection \<Rightarrow> Entry option" where
  "renderSection ds sel section =
     (case lookup_component (type section) of
        Some C \<Rightarrow>
          Some (Div (id' section) (type section = ''navbar'') C section ds (sel = Some (id' section)))
      | None \<Rightarrow> None)"

definition renderSections ::
  "DesignSystem \<Rightarrow> string option \<Rightarrow> LayoutSection list \<Rightarrow> Entry option list" where
  "renderSections ds sel secs = map (renderSection ds sel) secs"

text \<open>The children that reach the page: \<^verbatim>\<open>null\<close> children render nothing.\<close>

definition rendered :: "Entry option list \<Rightarrow> Entry list" where
  "rendered es = List.map_filter (\<lambda>e. e) es"


section \<open>Colour conversion (hexToRgb)\<close>

text \<open>
  The character class \<^verbatim>\<open>[a-f\d]\<close> under the flag \<^verbatim>\<open>i\<close>: the letters a to f in either
  case and the ten digits.
\<close>

definition is_hex_digit :: "char \<Rightarrow> bool" where
  "is_hex_digit c = (c \<in> set ''abcdef'' \<or> c \<in> set ''ABCDEF'' \<or> c \<in> set ''0123456789'')"

text \<open>One group \<^verbatim>\<open>([a-f\d]{2})\<close>: the two characters it captures and the input after them.\<close>

fun hex_pair :: "string \<Rightarrow> (string \<times> string) option" where
  "hex_pair (a # b # rest) = (if is_hex_digit a \<and> is_hex_digit b then Some ([a, b], rest) else None)"
| "hex_pair _ = None"

text \<open>\<^verbatim>\<open>([a-f\d]{2})([a-f\d]{2})([a-f\d]{2})$\<close>: three groups, then the end of the input.\<close>

definition three_pairs :: "string \<Rightarrow> (string \<times> string \<times> string) option" where
  "three_pairs s =
     (case hex_pair s of
        None \<Rightarrow> None
      | Some (g1, s1) \<Rightarrow>
          (case hex_pair s1 of
             None \<Rightarrow> None
           | Some (g2, s2) \<Rightarrow>
               (case hex_pair s2 of
                  None \<Rightarrow> None
                | Some (g3, s3) \<Rightarrow> if s3 = [] then Some (g1, g2, g3) else None)))"

text \<open>
  \<^verbatim>\<open>/^#?([a-f\d]{2})([a-f\d]{2})([a-f\d]{2})$/i.exec(hex)\<close>. The pattern is anchored at the
  start, so the only attempt is at position 0. The optional \<^verbatim>\<open>#\<close> is greedy: the match
  is tried with the \<^verbatim>\<open>#\<close> consumed and, if that fails, without. \<open>None\<close> is \<^verbatim>\<open>null\<close>;
  otherwise the three captures \<^verbatim>\<open>result[1]\<close>, \<^verbatim>\<open>result[2]\<close>, \<^verbatim>\<open>result[3]\<close>.
\<close>

definition hex_exec :: "string \<Rightarrow> (string \<times> string \<times> string) option" where
  "hex_exec s =
     (case s of
        c # rest \<Rightarrow>
          if c = CHR ''#'' then (case three_pairs rest of Some r \<Rightarrow> Some r | None \<Rightarrow> three_pairs s)
          else three_pairs s
      | [] \<Rightarrow> three_pairs s)"

text \<open>
  \<^verbatim>\<open>parseInt(str, radix)\<close>: leading white space is dropped, then a sign, then for radix 16
  a prefix \<^verbatim>\<open>0x\<close> or \<^verbatim>\<open>0X\<close>; the longest run of digits of the radix is read, and
  an empty run gives \<^verbatim>\<open>NaN\<close> (\<open>None\<close>). The value is exact as long as it stays below
  \<open>2\<^sup>5\<^sup>3\<close>, which two hexadecimal digits do.
\<close>

definition digit_value :: "char \<Rightarrow> nat option" where
  "digit_value c =
     (let n = of_char c :: nat
      in if 48 \<le> n \<and> n \<le> 57 then Some (n - 48)
         else if 97 \<le> n \<and> n \<le> 122 then Some (n - 87)
         else if 65 \<le> n \<and> n \<le> 90 then Some (n - 55)
         else None)"

definition is_digit_of :: "nat \<Rightarrow> char \<Rightarrow> bool" where
  "is_digit_of radix c = (case digit_value c of Some d \<Rightarrow> d < radix | None \<Rightarrow> False)"

definition digits_value :: "nat \<Rightarrow> string \<Rightarrow> nat" where
  "digits_value radix z = foldl (\<lambda>acc c. acc * radix + or_else (digit_value c) 0) 0 z"

definition parseInt :: "string \<Rightarrow> nat \<Rightarrow> int option" where
  "parseInt str radix =
     (let s1 = dropWhile is_space str;
          neg = (s1 \<noteq> [] \<and> hd s1 = CHR ''-'');
          s2 = (if s1 \<noteq> [] \<and> (hd s1 = CHR ''-'' \<or> hd s1 = CHR ''+'') then tl s1 else s1);
          s3 = (if radix = 16 \<and> (take 2 s2 = ''0x'' \<or> take 2 s2 = ''0X'') then drop 2 s2 else s2);
          z = takeWhile (is_digit_of radix) s3
      in if z = [] then None
         else Some ((if neg then - 1 else 1) * int (digits_value radix z)))"

text \<open>
  The template literal turns each number into text: \<^verbatim>\<open>NaN\<close>, or the decimal digits of an
  integer with a minus sign when it is negative.
\<close>

fun decimal :: "nat \<Rightarrow> string" where
  "decimal n = (if n < 10 then [''0123456789'' ! n] else decimal (n div 10) @ [''0123456789'' ! (n mod 10)])"

declare decimal.simps [simp del]

definition number_to_string :: "int option \<Rightarrow> string" where
  "number_to_string x =
     (case x of
        None \<Rightarrow> ''NaN''
      | Some n \<Rightarrow> if n < 0 then CHR ''-'' # decimal (nat (- n)) else decimal (nat n))"

text \<open>
  \<^verbatim>\<open>hexToRgb\<close>: the three captures read as hexadecimal numbers and joined by a comma and
  a space, or the fixed text when the pattern does not match.
\<close>

definition hexToRgb :: "string \<Rightarrow> string" where
  "hexToRgb hex =
     (case hex_exec hex of
        Some (g1, g2, g3) \<Rightarrow>
          number_to_string (parseInt g1 16) @ '', '' @ number_to_string (parseInt g2 16) @ '', ''
            @ number_to_string (parseInt g3 16)
      | None \<Rightarrow> ''79, 70, 229'')"


section \<open>Run-time values and the JSON export\<close>

text \<open>
  The export \<^verbatim>\<open>JSON.stringify({ sections, designSystem }, null, 2)\<close> works on the values
  the two state hooks hold at run time, and it observes what the interfaces of
  \<^verbatim>\<open>types.ts\<close> do not fix: the order in which each object got its properties. So the
  export is modelled on run-time values. An object is the list of its own properties in
  enumeration order; a property holding \<^verbatim>\<open>undefined\<close> is not told apart from a missing
  one (the export drops both). The interfaces have no number-typed member below
  \<^verbatim>\<open>sections\<close> and \<^verbatim>\<open>designSystem\<close>, and numbers (floating point) are left out.

  A string is a sequence of 16-bit code units, as in the language: a character outside the
  basic plane is a pair of surrogates, and a surrogate may also stand alone. \<open>cu\<close> and
  \<open>js\<close> write the code units of ASCII characters and texts.
\<close>

type_synonym unit16 = "16 word"

type_synonym jstring = "unit16 list"

definition cu :: "char \<Rightarrow> unit16" where
  "cu c = of_nat (of_char c)"

definition js :: "string \<Rightarrow> jstring" where
  "js s = map cu s"

datatype json = JNull | JBool bool | JString jstring | JArray "json list" | JObject "(jstring \<times> json) list"


subsection \<open>JSON.stringify with an indentation of two spaces\<close>

text \<open>
  \<^verbatim>\<open>QuoteJSONString\<close>: the quotation mark, the backslash and the control characters below
  U+0020 are escaped (the short forms for backspace, tab, line feed, form feed and carriage
  return, \<^verbatim>\<open>\uXXXX\<close> in lower-case hexadecimal for the others). The text is read by code
  points: a leading surrogate followed by a trailing one is copied as it is, a surrogate
  that stands alone is written as \<^verbatim>\<open>\uXXXX\<close>. Every other code unit is copied.
\<close>

definition hex_digits :: jstring where "hex_digits = js ''0123456789abcdef''"

definition unicode_escape :: "unit16 \<Rightarrow> jstring" where
  "unicode_escape c =
     (let n = unat c
      in [cu CHR 0x5C, cu CHR ''u'', hex_digits ! (n div 4096), hex_digits ! (n div 256 mod 16),
          hex_digits ! (n div 16 mod 16), hex_digits ! (n mod 16)])"

definition quote_char :: "unit16 \<Rightarrow> jstring" where
  "quote_char c =
     (if c = cu CHR 0x08 then [cu CHR 0x5C, cu CHR ''b'']
      else if c = cu CHR 0x09 then [cu CHR 0x5C, cu CHR ''t'']
      else if c = cu CHR 0x0A then [cu CHR 0x5C, cu CHR ''n'']
      else if c = cu CHR 0x0C then [cu CHR 0x5C, cu CHR ''f'']
      else if c = cu CHR 0x0D then [cu CHR 0x5C, cu CHR ''r'']
      else if c = cu CHR 0x22 then [cu CHR 0x5C, cu CHR 0x22]
      else if c = cu CHR 0x5C then [cu CHR 0x5C, cu CHR 0x5C]
      else if unat c < 32 then unicode_escape c
      else [c])"

definition is_lead :: "unit16 \<Rightarrow> bool" where
  "is_lead c = (0xD800 \<le> unat c \<and> unat c \<le> 0xDBFF)"

definition is_trail :: "unit16 \<Rightarrow> bool" where
  "is_trail c = (0xDC00 \<le> unat c \<and> unat c \<le> 0xDFFF)"

fun quote_units :: "jstring \<Rightarrow> jstring" where
  "quote_units [] = []"
| "quote_units [c] = (if is_lead c \<or> is_trail c then unicode_escape c else quote_char c)"
| "quote_units (c # d # ds) =
     (if is_lead c \<and> is_trail d then c # d # quote_units ds
      else if is_lead c \<or> is_trail c then unicode_escape c @ quote_units (d # ds)
      else quote_char c @ quote_units (d # ds))"

definition QuoteJSONString :: "jstring \<Rightarrow> jstring" where
  "QuoteJSONString s = cu CHR 0x22 # quote_units s @ [cu CHR 0x22]"

text \<open>\<^verbatim>\<open>Array.prototype.join\<close> on a list of texts.\<close>

fun join :: "jstring \<Rightarrow> jstring list \<Rightarrow> jstring" where
  "join sep [] = []"
| "join sep [x] = x"
| "join sep (x # y # ys) = x @ sep @ join sep (y # ys)"

text \<open>The \<^verbatim>\<open>space\<close> argument 2 makes the gap two spaces.\<close>

definition gap :: jstring where "gap = js ''  ''"

text \<open>
  \<^verbatim>\<open>SerializeJSONProperty\<close> with the current indentation. An empty array or object is
  written without line breaks; otherwise each element or member goes on a line of its own,
  indented by the enclosing indentation plus the gap, and the closing bracket is on a line
  at the enclosing indentation. Members are written in the enumeration order of the object.
\<close>

fun SerializeJSONProperty :: "jstring \<Rightarrow> json \<Rightarrow> jstring" where
  "SerializeJSONProperty indent JNull = js ''null''"
| "SerializeJSONProperty indent (JBool b) = (if b then js ''true'' else js ''false'')"
| "SerializeJSONProperty indent (JString s) = QuoteJSONString s"
| "SerializeJSONProperty indent (JArray xs) =
     (if xs = [] then js ''[]''
      else js ''['' @ [cu CHR 0x0A] @ (indent @ gap)
           @ join (js '','' @ [cu CHR 0x0A] @ (indent @ gap)) (map (SerializeJSONProperty (indent @ gap)) xs)
           @ [cu CHR 0x0A] @ indent @ js '']'')"
| "SerializeJSONProperty indent (JObject ps) =
     (if ps = [] then js ''{}''
      else js ''{'' @ [cu CHR 0x0A] @ (indent @ gap)
           @ join (js '','' @ [cu CHR 0x0A] @ (indent @ gap))
               (map (\<lambda>(k, v). QuoteJSONString k @ js '': '' @ SerializeJSONProperty (indent @ gap) v) ps)
           @ [cu CHR 0x0A] @ indent @ js ''}'')"

definition JSON_stringify :: "json \<Rightarrow> jstring" where
  "JSON_stringify v = SerializeJSONProperty [] v"

text \<open>
  The JSON text of the export: a fresh object with the two properties \<^verbatim>\<open>sections\<close> and
  \<^verbatim>\<open>designSystem\<close>, in this order.
\<close>

definition canonicalJson :: "json list \<Rightarrow> json \<Rightarrow> jstring" where
  "canonicalJson secs ds =
     JSON_stringify (JObject [(js ''sections'', JArray secs), (js ''designSystem'', ds)])"

text \<open>
  The text shown in the export panel and copied by \<^verbatim>\<open>copyToClipboard\<close>:
  \<^verbatim>\<open>codeTab === 'react' ? generateReactCode(sections, designSystem) : JSON.stringify(...)\<close>.
  \<^verbatim>\<open>generateReactCode\<close> comes from \<^verbatim>\<open>utils/codeGenerator\<close> and is a parameter here.
\<close>

datatype CodeTab = React | Json

definition export_text ::
  "(json list \<Rightarrow> json \<Rightarrow> jstring) \<Rightarrow> CodeTab \<Rightarrow> json list \<Rightarrow> json \<Rightarrow> jstring" where
  "export_text generateReactCode codeTab secs ds =
     (if codeTab = React then generateReactCode secs ds
      else canonicalJson secs ds)"


subsection \<open>JSON.parse\<close>

text \<open>
  The parser reads the JSON grammar: white space is tab, line feed, carriage return and
  space; a string may not hold a raw control character; the escapes are the eight
  two-character ones and \<^verbatim>\<open>\uXXXX\<close>. Its result is a value, or an error:
  \<open>SyntaxError\<close> is the exception of \<^verbatim>\<open>JSON.parse\<close>; \<open>Unmodelled\<close> marks a text that is
  outside this model (a number, or a property name made of digits, which as an integer index
  would be enumerated before the others); \<open>OutOfFuel\<close> is the recursion bound
  of the model, which \<open>JSON_parse\<close> sets high enough never to reach (\<open>JSON_parse_fuel\<close>).
\<close>

datatype error = SyntaxError | Unmodelled | OutOfFuel

definition is_ws :: "unit16 \<Rightarrow> bool" where
  "is_ws c = (c = cu CHR 0x09 \<or> c = cu CHR 0x0A \<or> c = cu CHR 0x0D \<or> c = cu CHR 0x20)"

definition skip_ws :: "jstring \<Rightarrow> jstring" where
  "skip_ws s = dropWhile is_ws s"

definition hex_value :: "unit16 \<Rightarrow> nat option" where
  "hex_value c =
     (let n = unat c
      in if 48 \<le> n \<and> n \<le> 57 then Some (n - 48)
         else if 97 \<le> n \<and> n \<le> 102 then Some (n - 87)
         else if 65 \<le> n \<and> n \<le> 70 then Some (n - 55)
         else None)"

definition hex4 :: "unit16 \<Rightarrow> unit16 \<Rightarrow> unit16 \<Rightarrow> unit16 \<Rightarrow> nat option" where
  "hex4 a b c d =
     (case (hex_value a, hex_value b, hex_value c, hex_value d) of
        (Some x, Some y, Some z, Some w) \<Rightarrow> Some (((x * 16 + y) * 16 + z) * 16 + w)
      | _ \<Rightarrow> None)"

text \<open>One escape sequence, after its backslash: the character it stands for and the rest.\<close>

fun parse_escape :: "jstring \<Rightarrow> error + (unit16 \<times> jstring)" where
  "parse_escape [] = Inl SyntaxError"
| "parse_escape (e # r) =
     (if e = cu CHR 0x22 then Inr (cu CHR 0x22, r)
      else if e = cu CHR 0x5C then Inr (cu CHR 0x5C, r)
      else if e = cu CHR ''/'' then Inr (cu CHR ''/'', r)
      else if e = cu CHR ''b'' then Inr (cu CHR 0x08, r)
      else if e = cu CHR ''f'' then Inr (cu CHR 0x0C, r)
      else if e = cu CHR ''n'' then Inr (cu CHR 0x0A, r)
      else if e = cu CHR ''r'' then Inr (cu CHR 0x0D, r)
      else if e = cu CHR ''t'' then Inr (cu CHR 0x09, r)
      else if e = cu CHR ''u'' then
        (case r of
           a # b # c # d # r' \<Rightarrow>
             (case hex4 a b c d of
                None \<Rightarrow> Inl SyntaxError
              | Some n \<Rightarrow> Inr (of_nat n, r'))
         | _ \<Rightarrow> Inl SyntaxError)
      else Inl SyntaxError)"

lemma parse_escape_shorter: "parse_escape s = Inr (c, r) \<Longrightarrow> length r < length s"
  by (cases s) (auto split: if_splits list.splits option.splits)

text \<open>The characters of a string after its opening quotation mark, up to the closing one.\<close>

function parse_chars :: "jstring \<Rightarrow> error + (jstring \<times> jstring)" where
  "parse_chars [] = Inl SyntaxError"
| "parse_chars (c # cs) =
     (if c = cu CHR 0x22 then Inr ([], cs)
      else if c = cu CHR 0x5C then
        (case parse_escape cs of
           Inl e \<Rightarrow> Inl e
         | Inr (d, r) \<Rightarrow>
             (case parse_chars r of Inl e \<Rightarrow> Inl e | Inr (s, rest) \<Rightarrow> Inr (d # s, rest)))
      else if unat c < 32 then Inl SyntaxError
      else (case parse_chars cs of Inl e \<Rightarrow> Inl e | Inr (s, rest) \<Rightarrow> Inr (c # s, rest)))"
  by pat_completeness auto
termination
  by (relation "measure length") (auto dest: parse_escape_shorter)

text \<open>
  An object gets its properties in the order of the text; a name that occurs again replaces
  the value and keeps the place of the first occurrence.
\<close>

definition digits_only :: "jstring \<Rightarrow> bool" where
  "digits_only k = (k \<noteq> [] \<and> list_all (\<lambda>c. c \<in> set (js ''0123456789'')) k)"

definition CreateDataProperty :: "(jstring \<times> json) list \<Rightarrow> jstring \<times> json \<Rightarrow> (jstring \<times> json) list" where
  "CreateDataProperty ps m =
     (if fst m \<in> set (map fst ps) then map (\<lambda>p. if fst p = fst m then m else p) ps else ps @ [m])"

definition build_object :: "(jstring \<times> json) list \<Rightarrow> error + json" where
  "build_object ms =
     (if list_ex (\<lambda>m. digits_only (fst m)) ms then Inl Unmodelled
      else Inr (JObject (foldl CreateDataProperty [] ms)))"

text \<open>
  A value, the elements of a non-empty array, and the members of a non-empty object. Each
  starts at a character that is not white space.
\<close>

fun parse_value :: "nat \<Rightarrow> jstring \<Rightarrow> error + (json \<times> jstring)"
  and parse_elements :: "nat \<Rightarrow> jstring \<Rightarrow> error + (json list \<times> jstring)"
  and parse_members :: "nat \<Rightarrow> jstring \<Rightarrow> error + ((jstring \<times> json) list \<times> jstring)"
where
  "parse_value 0 s = Inl OutOfFuel"
| "parse_value (Suc n) s =
     (case s of
        [] \<Rightarrow> Inl SyntaxError
      | c # cs \<Rightarrow>
          if c = cu CHR ''{'' then
            (case skip_ws cs of
               [] \<Rightarrow> Inl SyntaxError
             | d # r \<Rightarrow>
                 if d = cu CHR ''}'' then Inr (JObject [], r)
                 else (case parse_members n (d # r) of
                         Inl e \<Rightarrow> Inl e
                       | Inr (ms, rest) \<Rightarrow>
                           (case build_object ms of Inl e \<Rightarrow> Inl e | Inr v \<Rightarrow> Inr (v, rest))))
          else if c = cu CHR ''['' then
            (case skip_ws cs of
               [] \<Rightarrow> Inl SyntaxError
             | d # r \<Rightarrow>
                 if d = cu CHR '']'' then Inr (JArray [], r)
                 else (case parse_elements n (d # r) of
                         Inl e \<Rightarrow> Inl e
                       | Inr (xs, rest) \<Rightarrow> Inr (JArray xs, rest)))
          else if c = cu CHR 0x22 then
            (case parse_chars cs of Inl e \<Rightarrow> Inl e | Inr (str, rest) \<Rightarrow> Inr (JString str, rest))
          else if take 4 s = js ''true'' then Inr (JBool True, drop 4 s)
          else if take 5 s = js ''false'' then Inr (JBool False, drop 5 s)
          else if take 4 s = js ''null'' then Inr (JNull, drop 4 s)
          else if c = cu CHR ''-'' \<or> c \<in> set (js ''0123456789'') then Inl Unmodelled
          else Inl SyntaxError)"
| "parse_elements 0 s = Inl OutOfFuel"
| "parse_elements (Suc n) s =
     (case parse_value n s of
        Inl e \<Rightarrow> Inl e
      | Inr (x, s1) \<Rightarrow>
          (case skip_ws s1 of
             [] \<Rightarrow> Inl SyntaxError
           | c # r \<Rightarrow>
               if c = cu CHR '','' then
                 (case parse_elements n (skip_ws r) of
                    Inl e \<Rightarrow> Inl e
                  | Inr (xs, rest) \<Rightarrow> Inr (x # xs, rest))
               else if c = cu CHR '']'' then Inr ([x], r)
               else Inl SyntaxError))"
| "parse_members 0 s = Inl OutOfFuel"
| "parse_members (Suc n) s =
     (case s of
        [] \<Rightarrow> Inl SyntaxError
      | q # s0 \<Rightarrow>
          if q \<noteq> cu CHR 0x22 then Inl SyntaxError
          else
            (case parse_chars s0 of
               Inl e \<Rightarrow> Inl e
             | Inr (k, s1) \<Rightarrow>
                 (case skip_ws s1 of
                    [] \<Rightarrow> Inl SyntaxError
                  | c # s2 \<Rightarrow>
                      if c \<noteq> cu CHR '':'' then Inl SyntaxError
                      else
                        (case parse_value n (skip_ws s2) of
                           Inl e \<Rightarrow> Inl e
                         | Inr (v, s3) \<Rightarrow>
                             (case skip_ws s3 of
                                [] \<Rightarrow> Inl SyntaxError
                              | d # r \<Rightarrow>
                                  if d = cu CHR '','' then
                                    (case parse_members n (skip_ws r) of
                                       Inl e \<Rightarrow> Inl e
                                     | Inr (ms, rest) \<Rightarrow> Inr ((k, v) # ms, rest))
                                  else if d = cu CHR ''}'' then Inr ([(k, v)], r)
                                  else Inl SyntaxError)))))"

text \<open>\<^verbatim>\<open>JSON.parse(text)\<close>: one value with white space around it.\<close>

definition JSON_parse :: "jstring \<Rightarrow> error + json" where
  "JSON_parse text =
     (case parse_value (2 * length text + 1) (skip_ws text) of
        Inl e \<Rightarrow> Inl e
      | Inr (v, rest) \<Rightarrow> if skip_ws rest = [] then Inr v else Inl SyntaxError)"


subsection \<open>Documents as run-time values\<close>

text \<open>
  What it means for a run-time value to have one of the interfaces of \<^verbatim>\<open>types.ts\<close>: it is
  an object whose property names are distinct and all declared, whose required properties
  are there, and whose properties have the declared types. The order of the properties is
  free.
\<close>

definition is_string :: "json \<Rightarrow> bool" where
  "is_string v = (case v of JString s \<Rightarrow> True | _ \<Rightarrow> False)"

definition is_boolean :: "json \<Rightarrow> bool" where
  "is_boolean v = (case v of JBool b \<Rightarrow> True | _ \<Rightarrow> False)"

definition is_one_of :: "jstring list \<Rightarrow> json \<Rightarrow> bool" where
  "is_one_of opts v = (case v of JString s \<Rightarrow> s \<in> set opts | _ \<Rightarrow> False)"

definition is_array_of :: "(json \<Rightarrow> bool) \<Rightarrow> json \<Rightarrow> bool" where
  "is_array_of P v = (case v of JArray xs \<Rightarrow> list_all P xs | _ \<Rightarrow> False)"

datatype presence = required | optional

definition field_ok :: "(jstring \<times> json) list \<Rightarrow> jstring \<times> presence \<times> (json \<Rightarrow> bool) \<Rightarrow> bool" where
  "field_ok ps f =
     (case map_of ps (fst f) of
        Some x \<Rightarrow> snd (snd f) x
      | None \<Rightarrow> fst (snd f) = optional)"

definition conforms :: "(jstring \<times> presence \<times> (json \<Rightarrow> bool)) list \<Rightarrow> json \<Rightarrow> bool" where
  "conforms flds v =
     (case v of
        JObject ps \<Rightarrow>
          distinct (map fst ps) \<and> list_all (\<lambda>p. fst p \<in> set (map fst flds)) ps
          \<and> list_all (field_ok ps) flds
      | _ \<Rightarrow> False)"

definition TextElementStyle_fields :: "(jstring \<times> presence \<times> (json \<Rightarrow> bool)) list" where
  "TextElementStyle_fields =
     [(js ''fontSize'', optional, is_string), (js ''fontWeight'', optional, is_string),
      (js ''color'', optional, is_string), (js ''fontFamily'', optional, is_string)]"

definition Typography_fields :: "(jstring \<times> presence \<times> (json \<Rightarrow> bool)) list" where
  "Typography_fields =
     [(js ''title'', optional, conforms TextElementStyle_fields),
      (js ''subtitle'', optional, conforms TextElementStyle_fields),
      (js ''description'', optional, conforms TextElementStyle_fields)]"

definition Style_fields :: "(jstring \<times> presence \<times> (json \<Rightarrow> bool)) list" where
  "Style_fields =
     [(js ''theme'', required, is_one_of [js ''light'', js ''dark'', js ''accent'', js ''glass'']),
      (js ''padding'', required, is_one_of [js ''small'', js ''medium'', js ''large'']),
      (js ''alignment'', required, is_one_of [js ''left'', js ''center'', js ''right'']),
      (js ''backgroundImage'', optional, is_string),
      (js ''typography'', optional, conforms Typography_fields)]"

definition Button_fields :: "(jstring \<times> presence \<times> (json \<Rightarrow> bool)) list" where
  "Button_fields =
     [(js ''text'', required, is_string), (js ''link'', required, is_string),
      (js ''ariaLabel'', optional, is_string)]"

definition Item_fields :: "(jstring \<times> presence \<times> (json \<Rightarrow> bool)) list" where
  "Item_fields =
     [(js ''title'', optional, is_string), (js ''description'', optional, is_string),
      (js ''icon'', optional, is_string), (js ''image'', optional, is_string),
      (js ''price'', optional, is_string), (js ''author'', optional, is_string),
      (js ''role'', optional, is_string), (js ''date'', optional, is_string),
      (js ''ariaLabel'', optional, is_string)]"

definition Content_fields :: "(jstring \<times> presence \<times> (json \<Rightarrow> bool)) list" where
  "Content_fields =
     [(js ''title'', optional, is_string), (js ''subtitle'', optional, is_string),
      (js ''description'', optional, is_string),
      (js ''primaryButton'', optional, conforms Button_fields),
      (js ''secondaryButton'', optional, conforms Button_fields),
      (js ''items'', optional, is_array_of (conforms Item_fields))]"

definition LayoutSection_fields :: "(jstring \<times> presence \<times> (json \<Rightarrow> bool)) list" where
  "LayoutSection_fields =
     [(js ''id'', required, is_string), (js ''type'', required, is_one_of (map js SECTION_TYPES)),
      (js ''content'', required, conforms Content_fields),
      (js ''style'', required, conforms Style_fields)]"

definition AccessibilitySettings_fields :: "(jstring \<times> presence \<times> (json \<Rightarrow> bool)) list" where
  "AccessibilitySettings_fields =
     [(js ''highContrast'', required, is_boolean), (js ''reducedMotion'', required, is_boolean),
      (js ''showAriaLabels'', required, is_boolean)]"

definition DesignSystem_fields :: "(jstring \<times> presence \<times> (json \<Rightarrow> bool)) list" where
  "DesignSystem_fields =
     [(js ''primaryColor'', required, is_string), (js ''borderRadius'', required, is_string),
      (js ''fontFamily'', required, is_string),
      (js ''accessibility'', required, conforms AccessibilitySettings_fields)]"

text \<open>A Document: sections with distinct ids and one design system.\<close>

definition is_Document :: "json list \<Rightarrow> json \<Rightarrow> bool" where
  "is_Document secs ds =
     (list_all (conforms LayoutSection_fields) secs
      \<and> distinct (map (\<lambda>s. case s of JObject ps \<Rightarrow> map_of ps (js ''id'') | _ \<Rightarrow> None) secs)
      \<and> conforms DesignSystem_fields ds)"


section \<open>Notions used in the statements\<close>

text \<open>
  How the side bar reads the style of one text element of a section:
  \<^verbatim>\<open>(selectedSection.style.typography as any)?.[element] || {}\<close>.
\<close>

definition element_style :: "LayoutSection \<Rightarrow> TextElement \<Rightarrow> TextElementStyle" where
  "element_style s element =
     or_else (case typography (style s) of None \<Rightarrow> None | Some t \<Rightarrow> get_element t element) empty_style"

text \<open>How the toggles read a flag: \<^verbatim>\<open>designSystem.accessibility[key]\<close>.\<close>

fun flag :: "AccessibilityKey \<Rightarrow> AccessibilitySettings \<Rightarrow> bool" where
  "flag HighContrast a = highContrast a"
| "flag ReducedMotion a = reducedMotion a"
| "flag ShowAriaLabels a = showAriaLabels a"

text \<open>
  A colour of six hexadecimal digits with an optional leading \<^verbatim>\<open>#\<close>, the value of one
  hexadecimal digit (its place among the sixteen digits, in either case) and of a pair.
\<close>

definition hexval :: "char \<Rightarrow> nat" where
  "hexval c = min (length (takeWhile (\<lambda>d. d \<noteq> c) ''0123456789abcdef''))
                  (length (takeWhile (\<lambda>d. d \<noteq> c) ''0123456789ABCDEF''))"

definition byte_of :: "char \<Rightarrow> char \<Rightarrow> nat" where
  "byte_of a b = 16 * hexval a + hexval b"

definition strip_hash :: "string \<Rightarrow> string" where
  "strip_hash s = (case s of c # rest \<Rightarrow> if c = CHR ''#'' then rest else s | [] \<Rightarrow> s)"

definition is_hex_color :: "string \<Rightarrow> bool" where
  "is_hex_color s =
     (length (strip_hash s) = 6 \<and> list_all (\<lambda>c. c \<in> set ''0123456789abcdefABCDEF'') (strip_hash s))"

definition is_hex_body :: "string \<Rightarrow> bool" where
  "is_hex_body s = (length s = 6 \<and> list_all is_hex_digit s)"

text \<open>
  The values on which export and parsing are inverse: in every object the property names
  are distinct and none is made of digits only.
\<close>

fun wf_json :: "json \<Rightarrow> bool" where
  "wf_json JNull = True"
| "wf_json (JBool b) = True"
| "wf_json (JString s) = True"
| "wf_json (JArray xs) = list_all wf_json xs"
| "wf_json (JObject ps) =
     (distinct (map fst ps) \<and> list_all (\<lambda>p. \<not> digits_only (fst p) \<and> wf_json (snd p)) ps)"

text \<open>One member of an object as the export writes it, and the fields whose types imply \<open>wf_json\<close>.\<close>

definition member_text :: "jstring \<Rightarrow> jstring \<times> json \<Rightarrow> jstring" where
  "member_text ind' p = QuoteJSONString (fst p) @ js '': '' @ SerializeJSONProperty ind' (snd p)"

definition sound_fields :: "(jstring \<times> presence \<times> (json \<Rightarrow> bool)) list \<Rightarrow> bool" where
  "sound_fields flds =
     list_all (\<lambda>f. \<not> digits_only (fst f) \<and> (\<forall>x. snd (snd f) x \<longrightarrow> wf_json x)) flds"

text \<open>The first position of a text inside another, and whether one text first occurs before another.\<close>

fun index_of :: "jstring \<Rightarrow> jstring \<Rightarrow> nat option" where
  "index_of pat [] = (if pat = [] then Some 0 else None)"
| "index_of pat (c # cs) =
     (if take (length pat) (c # cs) = pat then Some 0 else map_option Suc (index_of pat cs))"

definition comes_before :: "jstring \<Rightarrow> jstring \<Rightarrow> jstring \<Rightarrow> bool" where
  "comes_before a b t =
     (case index_of a t of
        None \<Rightarrow> False
      | Some i \<Rightarrow> (case index_of b t of None \<Rightarrow> False | Some j \<Rightarrow> i < j))"


subsection \<open>Example values\<close>

definition example_section :: LayoutSection where
  "example_section =
     \<lparr>id' = ''s1'', type = ''hero'',
      content = \<lparr>Content.title = Some ''Hello'', subtitle = None, description = None,
                 primaryButton = None, secondaryButton = None, items = None\<rparr>,
      style = \<lparr>theme = dark, padding = large, alignment = center, backgroundImage = None,
               typography = Some \<lparr>Typography.title =
                   Some \<lparr>fontSize = Some ''2rem'', fontWeight = None, color = None, fontFamily = None\<rparr>,
                 subtitle = None, description = None\<rparr>\<rparr>\<rparr>"

definition color_patch :: TextElementStyle where
  "color_patch = \<lparr>fontSize = None, fontWeight = None, color = Some ''#fff'', fontFamily = None\<rparr>"

definition example_state :: AppState where
  "example_state =
     \<lparr>prompt = ''a page'', sections = [example_section], designSystem = default_designSystem,
      isGenerating = False, activeTab = layers, selectedId = None, console = []\<rparr>"

definition example_answer :: LayoutData where
  "example_answer =
     \<lparr>LayoutData.sections = [],
      designSystem = \<lparr>primaryColor = ''#000000'', borderRadius = ''0'', fontFamily = ''Arial'',
        accessibility = \<lparr>highContrast = True, reducedMotion = True, showAriaLabels = False\<rparr>\<rparr>\<rparr>"

definition section_of_type :: "string \<Rightarrow> string \<Rightarrow> LayoutSection" where
  "section_of_type i t = example_section\<lparr>id' := i, type := t\<rparr>"

text \<open>
  Run-time values: a section with its properties in the order of the interface, the same
  section with \<^verbatim>\<open>style\<close> before \<^verbatim>\<open>content\<close>, a section whose title holds a dash
  (U+2014), a character outside the basic plane (the pair D83D DE00) and a surrogate that
  stands alone, and the initial design system of \<^verbatim>\<open>App\<close>.
\<close>

definition example_content_value :: json where
  "example_content_value = JObject [(js ''title'', JString (js ''Hello''))]"

definition example_style_value :: json where
  "example_style_value =
     JObject [(js ''theme'', JString (js ''dark'')), (js ''padding'', JString (js ''large'')),
              (js ''alignment'', JString (js ''center''))]"

definition example_section_value :: json where
  "example_section_value =
     JObject [(js ''id'', JString (js ''s1'')), (js ''type'', JString (js ''hero'')),
              (js ''content'', example_content_value), (js ''style'', example_style_value)]"

definition style_first_section_value :: json where
  "style_first_section_value =
     JObject [(js ''id'', JString (js ''s1'')), (js ''type'', JString (js ''hero'')),
              (js ''style'', example_style_value), (js ''content'', example_content_value)]"

definition unicode_section_value :: json where
  "unicode_section_value =
     JObject [(js ''id'', JString (js ''s2'')), (js ''type'', JString (js ''cta'')),
              (js ''content'',
                 JObject [(js ''title'', JString (js ''Hi '' @ [0x2014, 0xD83D, 0xDE00, 0xD800]))]),
              (js ''style'', example_style_value)]"

definition default_designSystem_value :: json where
  "default_designSystem_value =
     JObject [(js ''primaryColor'', JString (js ''#4f46e5'')), (js ''borderRadius'', JString (js ''0.75rem'')),
              (js ''fontFamily'', JString (js ''Inter'')),
              (js ''accessibility'',
                 JObject [(js ''highContrast'', JBool False), (js ''reducedMotion'', JBool False),
                          (js ''showAriaLabels'', JBool True)])]"


section \<open>Typography patch\<close>

lemma patch_section_hit:
  "id' s = i \<Longrightarrow> typography (style (patch_section i el p s)) =
     Some (set_element (or_else (typography (style s)) empty_typography) el
            (spread_style (element_style s el) p))"
  by (cases el; cases "typography (style s)")
     (simp_all add: patch_section_def element_style_def or_else_def Let_def empty_typography_def)

lemma element_style_patch_same:
  "id' s = i \<Longrightarrow> element_style (patch_section i el p s) el = spread_style (element_style s el) p"
  by (cases el) (simp_all add: patch_section_hit element_style_def or_else_def)

lemma element_style_patch_other:
  "e \<noteq> el \<Longrightarrow> element_style (patch_section i el p s) e = element_style s e"
  by (cases el; cases e; cases "typography (style s)")
     (simp_all add: patch_section_def element_style_def or_else_def Let_def empty_typography_def)

lemma patch_section_frame:
  "id' (patch_section i el p s) = id' s \<and> type (patch_section i el p s) = type s
   \<and> content (patch_section i el p s) = content s
   \<and> theme (style (patch_section i el p s)) = theme (style s)
   \<and> padding (style (patch_section i el p s)) = padding (style s)
   \<and> alignment (style (patch_section i el p s)) = alignment (style s)
   \<and> backgroundImage (style (patch_section i el p s)) = backgroundImage (style s)"
  by (simp add: patch_section_def Let_def)

text \<open>
  Claim C2. The typography patch merges per field. For a section with the given id, each
  field of the patched element reads as the patch where the patch sets it and as before
  otherwise; the typography record and the entry of the element exist afterwards, whether
  or not they did before; the other two elements read as before.
\<close>

theorem typography_patch_merges_per_field:
  assumes "n < length secs" and "id' (secs ! n) = i"
  shows "fontSize (element_style (updateSectionTypography i el p secs ! n) el) =
           (if fontSize p = None then fontSize (element_style (secs ! n) el) else fontSize p)
       \<and> fontWeight (element_style (updateSectionTypography i el p secs ! n) el) =
           (if fontWeight p = None then fontWeight (element_style (secs ! n) el) else fontWeight p)
       \<and> color (element_style (updateSectionTypography i el p secs ! n) el) =
           (if color p = None then color (element_style (secs ! n) el) else color p)
       \<and> TextElementStyle.fontFamily (element_style (updateSectionTypography i el p secs ! n) el) =
           (if TextElementStyle.fontFamily p = None
            then TextElementStyle.fontFamily (element_style (secs ! n) el)
            else TextElementStyle.fontFamily p)
       \<and> (\<exists>t m. typography (style (updateSectionTypography i el p secs ! n)) = Some t
                \<and> get_element t el = Some m)
       \<and> (\<forall>e. e \<noteq> el \<longrightarrow>
             element_style (updateSectionTypography i el p secs ! n) e = element_style (secs ! n) e)"
proof -
  have nth: "updateSectionTypography i el p secs ! n = patch_section i el p (secs ! n)"
    using assms(1) by (simp add: updateSectionTypography_def)
  have same: "element_style (patch_section i el p (secs ! n)) el
                = spread_style (element_style (secs ! n) el) p"
    using assms(2) by (rule element_style_patch_same)
  have created: "\<exists>t m. typography (style (patch_section i el p (secs ! n))) = Some t
                   \<and> get_element t el = Some m"
    using assms(2) by (cases el) (simp_all add: patch_section_hit)
  show ?thesis
    unfolding nth same using created
    by (auto simp: spread_style_def spread_field_def element_style_patch_other split: option.splits)
qed

text \<open>
  The example of the claim: \<^verbatim>\<open>typography.title = {fontSize: "2rem"}\<close> patched with
  \<^verbatim>\<open>{color: "#fff"}\<close> reads \<^verbatim>\<open>{fontSize: "2rem", color: "#fff"}\<close>.
\<close>

theorem typography_patch_merges_per_field_witness:
  "0 < length [example_section] \<and> id' ([example_section] ! 0) = ''s1''
   \<and> element_style (updateSectionTypography ''s1'' Title color_patch [example_section] ! 0) Title
       = \<lparr>fontSize = Some ''2rem'', fontWeight = None, color = Some ''#fff'', fontFamily = None\<rparr>"
proof -
  have h1: "0 < length [example_section]" by simp
  have h2: "id' ([example_section] ! 0) = ''s1''" by (simp add: example_section_def)
  have old: "element_style ([example_section] ! 0) Title
      = \<lparr>fontSize = Some ''2rem'', fontWeight = None, color = None, fontFamily = None\<rparr>"
    by (simp add: example_section_def element_style_def or_else_def)
  from typography_patch_merges_per_field [OF h1 h2, of Title color_patch]
  show ?thesis using h1 h2 unfolding old
    by (cases "element_style (updateSectionTypography ''s1'' Title color_patch [example_section] ! 0) Title")
       (simp add: color_patch_def)
qed

text \<open>
  Claim C3. A typography patch whose id matches no section returns the list of sections
  unchanged.
\<close>

theorem typography_patch_stale_id_noop:
  "i \<notin> set (map id' secs) \<Longrightarrow> updateSectionTypography i el p secs = secs"
  by (induction secs) (auto simp: updateSectionTypography_def patch_section_def)

theorem typography_patch_stale_id_noop_witness:
  "''gone'' \<notin> set (map id' [example_section])
   \<and> updateSectionTypography ''gone'' Subtitle color_patch [example_section] = [example_section]"
proof -
  have h: "''gone'' \<notin> set (map id' [example_section])" by (simp add: example_section_def)
  show ?thesis using h typography_patch_stale_id_noop [OF h] by simp
qed


section \<open>Design system patch\<close>

text \<open>
  Claim C4. Toggling one accessibility flag negates that flag and keeps the other two flags
  and the three top-level fields.
\<close>

theorem accessibility_toggle_keeps_rest:
  "primaryColor (toggleAccessibility k ds) = primaryColor ds
   \<and> borderRadius (toggleAccessibility k ds) = borderRadius ds
   \<and> DesignSystem.fontFamily (toggleAccessibility k ds) = DesignSystem.fontFamily ds
   \<and> flag k (accessibility (toggleAccessibility k ds)) = (\<not> flag k (accessibility ds))
   \<and> (\<forall>k'. k' \<noteq> k \<longrightarrow>
         flag k' (accessibility (toggleAccessibility k ds)) = flag k' (accessibility ds))"
proof -
  have other: "flag k' (toggle_flag k a) = flag k' a" if "k' \<noteq> k" for k' a
    using that by (cases k; cases k') simp_all
  have self: "flag k (toggle_flag k a) = (\<not> flag k a)" for a
    by (cases k) simp_all
  show ?thesis
    by (simp add: toggleAccessibility_def other self)
qed

theorem accessibility_toggle_keeps_rest_witness:
  "ReducedMotion \<noteq> HighContrast
   \<and> toggleAccessibility HighContrast default_designSystem =
       \<lparr>primaryColor = ''#4f46e5'', borderRadius = ''0.75rem'', fontFamily = ''Inter'',
        accessibility = \<lparr>highContrast = True, reducedMotion = False, showAriaLabels = True\<rparr>\<rparr>
   \<and> flag ReducedMotion (accessibility (toggleAccessibility HighContrast default_designSystem))
       = flag ReducedMotion (accessibility default_designSystem)"
  using accessibility_toggle_keeps_rest [of HighContrast default_designSystem]
  by (simp add: toggleAccessibility_def default_designSystem_def)


section \<open>Generation and refinement\<close>

text \<open>
  Claim C7. A rejected generation leaves sections and design system as they were; and
  whatever the outcome, either both are as before or both are the ones of the answer.
\<close>

theorem failed_generation_leaves_document:
  "AppState.sections (handleGenerate (Rejected e) st) = AppState.sections st
   \<and> AppState.designSystem (handleGenerate (Rejected e) st) = AppState.designSystem st
   \<and> ((AppState.sections (handleGenerate r st) = AppState.sections st
         \<and> AppState.designSystem (handleGenerate r st) = AppState.designSystem st)
       \<or> (\<exists>data. r = Resolved data
             \<and> AppState.sections (handleGenerate r st) = LayoutData.sections data
             \<and> AppState.designSystem (handleGenerate r st) = LayoutData.designSystem data))"
  by (cases r) (simp_all add: handleGenerate_def Let_def)

text \<open>
  Claim C9. A refinement never changes the design system; with a prompt that is not blank
  and a resolved call, the sections are the ones of the answer.
\<close>

theorem refine_keeps_designSystem:
  "AppState.designSystem (handleRefine q r st) = AppState.designSystem st
   \<and> (js_trim q \<noteq> [] \<longrightarrow>
        AppState.sections (handleRefine q (Resolved data) st) = LayoutData.sections data)"
  by (cases r) (simp_all add: handleRefine_def Let_def)

theorem refine_keeps_designSystem_witness:
  "js_trim ''darker'' \<noteq> []
   \<and> AppState.sections (handleRefine ''darker'' (Resolved example_answer) example_state) = []
   \<and> AppState.designSystem (handleRefine ''darker'' (Resolved example_answer) example_state)
       = default_designSystem"
proof -
  have h: "js_trim ''darker'' \<noteq> []" by (simp add: js_trim_def is_space_def)
  show ?thesis
    using h refine_keeps_designSystem [of "''darker''" "Resolved example_answer" example_state example_answer]
    by (simp add: example_answer_def example_state_def)
qed


section \<open>Registry and preview\<close>

text \<open>
  Claim C8. On each of the fourteen values of \<^verbatim>\<open>LayoutSection.type\<close> the registry yields
  its own component.
\<close>

theorem registry_total_on_types:
  "map lookup_component SECTION_TYPES =
     map (\<lambda>c. Some (Registered c))
       [Navbar, Hero, Features, Stats, Pricing, Testimonials, FAQ, Footer, CTA, Contact,
        LogoCloud, Newsletter, Team, Timeline]
   \<and> length SECTION_TYPES = 14 \<and> distinct SECTION_TYPES"
  by (simp add: SECTION_TYPES_def lookup_component_def SECTION_COMPONENTS_def)

text \<open>
  A section whose type the registry read leaves \<^verbatim>\<open>undefined\<close> is skipped, and the keys of
  the rendered children are the ids of the other sections in document order.
\<close>

lemma unknown_type_skipped:
  "lookup_component (type s) = None \<Longrightarrow>
     rendered (renderSections ds sel (xs @ s # ys)) = rendered (renderSections ds sel (xs @ ys))"
  by (simp add: rendered_def renderSections_def renderSection_def map_filter_def)

lemma rendered_keys_in_order:
  "map (\<lambda>e. case e of Div k st c s d b \<Rightarrow> k) (rendered (renderSections ds sel secs))
     = map id' (filter (\<lambda>s. lookup_component (type s) \<noteq> None) secs)"
  by (induction secs)
     (auto simp: rendered_def renderSections_def renderSection_def map_filter_def split: option.splits)

text \<open>
  Claim C6. The type \<^verbatim>\<open>unknownFutureType\<close> reads as \<^verbatim>\<open>undefined\<close>. The type
  \<^verbatim>\<open>constructor\<close> is not a key of the registry either, but the read finds the member
  inherited from \<^verbatim>\<open>Object.prototype\<close>, which is truthy: the section is not skipped, and a
  child is rendered for it with that member in the place of a component.
\<close>

theorem inherited_name_is_rendered:
  "lookup_component ''unknownFutureType'' = None
   \<and> map_of SECTION_COMPONENTS ''constructor'' = None
   \<and> rendered (renderSections default_designSystem None
        [section_of_type ''a'' ''hero'', section_of_type ''b'' ''constructor'',
         section_of_type ''c'' ''footer''])
     = [Div ''a'' False (Registered Hero) (section_of_type ''a'' ''hero'') default_designSystem False,
        Div ''b'' False (Inherited ''constructor'') (section_of_type ''b'' ''constructor'')
          default_designSystem False,
        Div ''c'' False (Registered Footer) (section_of_type ''c'' ''footer'') default_designSystem False]"
  by (simp add: rendered_def renderSections_def renderSection_def map_filter_def
      lookup_component_def SECTION_COMPONENTS_def Object_prototype_keys_def section_of_type_def)


section \<open>hexToRgb\<close>

lemma hex_chars_value:
  "\<forall>c \<in> set ''0123456789abcdefABCDEF''. digit_value c = Some (hexval c) \<and> hexval c < 16"
  by code_simp

lemma hex_chars_plain:
  "\<forall>c \<in> set ''0123456789abcdefABCDEF''.
     \<not> is_space c \<and> c \<noteq> CHR ''-'' \<and> c \<noteq> CHR ''+'' \<and> c \<noteq> CHR ''x'' \<and> c \<noteq> CHR ''X''
     \<and> c \<noteq> CHR ''#'' \<and> is_hex_digit c"
  by code_simp

lemma hex_digit_chars:
  "\<forall>c \<in> set ''abcdef''. c \<in> set ''0123456789abcdefABCDEF''"
  "\<forall>c \<in> set ''ABCDEF''. c \<in> set ''0123456789abcdefABCDEF''"
  "\<forall>c \<in> set ''0123456789''. c \<in> set ''0123456789abcdefABCDEF''"
  by code_simp+

lemma is_hex_digit_iff: "is_hex_digit c \<longleftrightarrow> c \<in> set ''0123456789abcdefABCDEF''"
proof
  assume "is_hex_digit c"
  then consider "c \<in> set ''abcdef''" | "c \<in> set ''ABCDEF''" | "c \<in> set ''0123456789''"
    unfolding is_hex_digit_def by blast
  then show "c \<in> set ''0123456789abcdefABCDEF''"
  proof cases
    case 1 with hex_digit_chars(1) show ?thesis by (rule bspec)
  next
    case 2 with hex_digit_chars(2) show ?thesis by (rule bspec)
  next
    case 3 with hex_digit_chars(3) show ?thesis by (rule bspec)
  qed
next
  assume "c \<in> set ''0123456789abcdefABCDEF''"
  with hex_chars_plain show "is_hex_digit c" by blast
qed

lemma hash_not_hex: "\<not> is_hex_digit CHR ''#''"
  by code_simp

lemma parseInt_pair:
  assumes "is_hex_digit c" and "is_hex_digit d"
  shows "parseInt [c, d] 16 = Some (int (byte_of c d))"
proof -
  have c: "c \<in> set ''0123456789abcdefABCDEF''" and d: "d \<in> set ''0123456789abcdefABCDEF''"
    using assms by (simp_all only: is_hex_digit_iff)
  have vc: "digit_value c = Some (hexval c)" "hexval c < 16"
    using hex_chars_value c by blast+
  have vd: "digit_value d = Some (hexval d)" "hexval d < 16"
    using hex_chars_value d by blast+
  have pc: "\<not> is_space c" "c \<noteq> CHR ''-''" "c \<noteq> CHR ''+''"
    using hex_chars_plain c by blast+
  have pd: "d \<noteq> CHR ''x''" "d \<noteq> CHR ''X''"
    using hex_chars_plain d by blast+
  show ?thesis
    using vc vd pc pd
    by (simp add: parseInt_def is_digit_of_def digits_value_def byte_of_def or_else_def)
qed

lemma byte_of_bound: "is_hex_digit c \<Longrightarrow> is_hex_digit d \<Longrightarrow> byte_of c d < 256"
proof -
  assume "is_hex_digit c" "is_hex_digit d"
  then have "hexval c < 16" "hexval d < 16"
    using hex_chars_value by (auto simp only: is_hex_digit_iff)
  then show ?thesis by (simp add: byte_of_def)
qed

lemma hex_pair_Some:
  "hex_pair s = Some (g, r) \<longleftrightarrow> (\<exists>a b. s = a # b # r \<and> g = [a, b] \<and> is_hex_digit a \<and> is_hex_digit b)"
  by (cases s rule: hex_pair.cases) auto

lemma three_pairs_Some:
  "three_pairs s = Some (g1, g2, g3) \<longleftrightarrow>
     (\<exists>a b c d e f. s = [a, b, c, d, e, f] \<and> g1 = [a, b] \<and> g2 = [c, d] \<and> g3 = [e, f]
        \<and> is_hex_digit a \<and> is_hex_digit b \<and> is_hex_digit c \<and> is_hex_digit d
        \<and> is_hex_digit e \<and> is_hex_digit f)"
  by (auto simp: three_pairs_def hex_pair_Some split: option.splits)

lemma length_six: "length s = 6 \<longleftrightarrow> (\<exists>a b c d e f. s = [a, b, c, d, e, f])"
  by (auto simp: eval_nat_numeral length_Suc_conv)

lemma three_pairs_body:
  "is_hex_body s \<Longrightarrow> three_pairs s = Some ([s ! 0, s ! 1], [s ! 2, s ! 3], [s ! 4, s ! 5])"
  unfolding is_hex_body_def length_six
  by (auto simp: three_pairs_Some)

lemma three_pairs_no_body: "\<not> is_hex_body s \<Longrightarrow> three_pairs s = None"
proof (rule ccontr)
  assume nb: "\<not> is_hex_body s" and "three_pairs s \<noteq> None"
  then obtain g1 g2 g3 where "three_pairs s = Some (g1, g2, g3)" by auto
  then have "is_hex_body s"
    unfolding three_pairs_Some by (auto simp: is_hex_body_def)
  with nb show False by simp
qed

lemma three_pairs_hash: "three_pairs (CHR ''#'' # rest) = None"
proof (rule three_pairs_no_body)
  show "\<not> is_hex_body (CHR ''#'' # rest)"
    using hash_not_hex by (simp add: is_hex_body_def)
qed

lemma hex_exec_eq:
  "hex_exec s = three_pairs (strip_hash s)"
proof (cases s)
  case Nil
  then show ?thesis by (simp add: hex_exec_def strip_hash_def)
next
  case (Cons c rest)
  show ?thesis
  proof (cases "c = CHR ''#''")
    case True
    then show ?thesis
      using Cons three_pairs_hash [of rest]
      by (simp add: hex_exec_def strip_hash_def split: option.splits)
  next
    case False
    then show ?thesis using Cons by (simp add: hex_exec_def strip_hash_def)
  qed
qed

lemma is_hex_color_body: "is_hex_color s \<longleftrightarrow> is_hex_body (strip_hash s)"
  by (simp add: is_hex_color_def is_hex_body_def is_hex_digit_iff [abs_def])

lemma decimal_small: "decimal 79 = ''79''" "decimal 70 = ''70''" "decimal 229 = ''229''"
  by (simp_all add: decimal.simps)

lemma hexToRgb_match:
  assumes "is_hex_color hex"
  shows "hexToRgb hex =
     decimal (byte_of (strip_hash hex ! 0) (strip_hash hex ! 1)) @ '', ''
     @ decimal (byte_of (strip_hash hex ! 2) (strip_hash hex ! 3)) @ '', ''
     @ decimal (byte_of (strip_hash hex ! 4) (strip_hash hex ! 5))"
proof -
  have body: "is_hex_body (strip_hash hex)" using assms by (simp only: is_hex_color_body)
  then obtain a b c d e f where s: "strip_hash hex = [a, b, c, d, e, f]"
    unfolding is_hex_body_def length_six by blast
  with body have h: "is_hex_digit a" "is_hex_digit b" "is_hex_digit c" "is_hex_digit d"
    "is_hex_digit e" "is_hex_digit f"
    by (simp_all add: is_hex_body_def)
  have "hex_exec hex = Some ([a, b], [c, d], [e, f])"
    using three_pairs_body [OF body] by (simp add: hex_exec_eq s)
  then show ?thesis
    by (simp add: hexToRgb_def s parseInt_pair h number_to_string_def)
qed

lemma hexToRgb_no_match: "\<not> is_hex_color hex \<Longrightarrow> hexToRgb hex = ''79, 70, 229''"
  by (simp add: hexToRgb_def hex_exec_eq is_hex_color_body three_pairs_no_body)

lemma byte_of_body:
  assumes "is_hex_body s" and "i < 5"
  shows "byte_of (s ! i) (s ! Suc i) < 256"
proof -
  have "is_hex_digit (s ! i)" "is_hex_digit (s ! Suc i)"
    using assms by (simp_all add: is_hex_body_def list_all_length)
  then show ?thesis by (rule byte_of_bound)
qed

text \<open>
  Claim C10. \<^verbatim>\<open>hexToRgb\<close> always returns three decimal numbers below 256 separated by
  a comma and a space; on a colour of six hexadecimal digits they are the values of the
  three pairs; on any other text the result is \<^verbatim>\<open>79, 70, 229\<close>, which is also the result
  on the primary colour of the initial design system, \<^verbatim>\<open>#4f46e5\<close>.
\<close>

theorem hexToRgb_total:
  "(\<exists>r g b. r < 256 \<and> g < 256 \<and> b < 256
        \<and> hexToRgb hex = decimal r @ '', '' @ decimal g @ '', '' @ decimal b)
   \<and> (is_hex_color hex \<longrightarrow>
        hexToRgb hex =
          decimal (byte_of (strip_hash hex ! 0) (strip_hash hex ! 1)) @ '', ''
          @ decimal (byte_of (strip_hash hex ! 2) (strip_hash hex ! 3)) @ '', ''
          @ decimal (byte_of (strip_hash hex ! 4) (strip_hash hex ! 5)))
   \<and> (\<not> is_hex_color hex \<longrightarrow> hexToRgb hex = ''79, 70, 229'')
   \<and> hexToRgb (primaryColor default_designSystem) = ''79, 70, 229''"
proof (intro conjI impI)
  show "\<exists>r g b. r < 256 \<and> g < 256 \<and> b < 256
          \<and> hexToRgb hex = decimal r @ '', '' @ decimal g @ '', '' @ decimal b"
  proof (cases "is_hex_color hex")
    case True
    then have body: "is_hex_body (strip_hash hex)" by (simp only: is_hex_color_body)
    have "byte_of (strip_hash hex ! 0) (strip_hash hex ! 1) < 256"
      "byte_of (strip_hash hex ! 2) (strip_hash hex ! 3) < 256"
      "byte_of (strip_hash hex ! 4) (strip_hash hex ! 5) < 256"
      using byte_of_body [OF body, of 0] byte_of_body [OF body, of 2] byte_of_body [OF body, of 4]
      by (simp_all add: eval_nat_numeral)
    with hexToRgb_match [OF True] show ?thesis by blast
  next
    case False
    have "hexToRgb hex = decimal 79 @ '', '' @ decimal 70 @ '', '' @ decimal 229"
      using hexToRgb_no_match [OF False] by (simp add: decimal_small)
    moreover have "(79::nat) < 256" "(70::nat) < 256" "(229::nat) < 256" by simp_all
    ultimately show ?thesis by blast
  qed
next
  assume "is_hex_color hex"
  then show "hexToRgb hex =
          decimal (byte_of (strip_hash hex ! 0) (strip_hash hex ! 1)) @ '', ''
          @ decimal (byte_of (strip_hash hex ! 2) (strip_hash hex ! 3)) @ '', ''
          @ decimal (byte_of (strip_hash hex ! 4) (strip_hash hex ! 5))"
    by (rule hexToRgb_match)
next
  assume "\<not> is_hex_color hex"
  then show "hexToRgb hex = ''79, 70, 229''" by (rule hexToRgb_no_match)
next
  have e: "primaryColor default_designSystem = ''#4f46e5''"
    by (simp add: default_designSystem_def)
  show "hexToRgb (primaryColor default_designSystem) = ''79, 70, 229''"
    unfolding e by code_simp
qed

theorem hexToRgb_total_witness:
  "is_hex_color ''#FF0080'' \<and> hexToRgb ''#FF0080'' = ''255, 0, 128''
   \<and> \<not> is_hex_color ''#fff'' \<and> hexToRgb ''#fff'' = ''79, 70, 229''"
proof -
  have h1: "is_hex_color ''#FF0080''" by code_simp
  have h2: "\<not> is_hex_color ''#fff''" by code_simp
  have d: "decimal (byte_of (strip_hash ''#FF0080'' ! 0) (strip_hash ''#FF0080'' ! 1)) = ''255''"
    "decimal (byte_of (strip_hash ''#FF0080'' ! 2) (strip_hash ''#FF0080'' ! 3)) = ''0''"
    "decimal (byte_of (strip_hash ''#FF0080'' ! 4) (strip_hash ''#FF0080'' ! 5)) = ''128''"
    by code_simp+
  show ?thesis
    using h1 h2 hexToRgb_total [of "''#FF0080''"] hexToRgb_total [of "''#fff''"]
    unfolding d by simp
qed


section \<open>Export and parsing are inverse\<close>


subsection \<open>Code units\<close>

lemma unat_cu [simp]: "unat (cu c) = of_char c"
proof -
  have "(of_char c :: nat) < 2 ^ 16"
    by (rule order_less_trans [OF nat_of_char_less_256]) simp
  then show ?thesis by (simp add: cu_def unat_of_nat take_bit_nat_eq_self)
qed

lemma cu_eq_iff [simp]: "cu a = cu b \<longleftrightarrow> a = b"
proof
  assume "cu a = cu b"
  then have "unat (cu a) = unat (cu b)" by simp
  then show "a = b" by simp
qed simp

lemma js_simps [simp]: "js [] = []" "js (c # s) = cu c # js s"
  by (simp_all add: js_def)

lemma unat_unit16: "unat (c :: unit16) < 65536"
  using unsigned_less [of c, where ?'a = nat] by simp


subsection \<open>Strings\<close>

lemma hex_digit_value: "\<forall>k \<in> set [0..<16]. hex_value (hex_digits ! k) = Some k"
  by code_simp

lemma hex_value_nth: "k < 16 \<Longrightarrow> hex_value (hex_digits ! k) = Some k"
  using hex_digit_value by simp

lemma four_digits:
  "((n div 4096 * 16 + n div 256 mod 16) * 16 + n div 16 mod 16) * 16 + n mod 16 = (n::nat)"
proof -
  let ?a = "n div 16"
  let ?b = "n div 256"
  have b: "?b = ?a div 16" by (simp add: div_mult2_eq [symmetric])
  have c: "n div 4096 = ?b div 16" by (simp add: div_mult2_eq [symmetric])
  have "n = 16 * ?a + n mod 16" by simp
  also have "?a = 16 * ?b + ?a mod 16" unfolding b by simp
  also have "?b = 16 * (n div 4096) + ?b mod 16" unfolding c by simp
  finally show ?thesis by (simp add: algebra_simps)
qed

lemma parse_escape_unicode:
  "parse_escape (tl (unicode_escape c) @ t) = Inr (c, t)"
proof -
  let ?n = "unat c"
  have lt: "?n < 65536" by (rule unat_unit16)
  have d3: "hex_value (hex_digits ! (?n div 4096)) = Some (?n div 4096)"
    using lt by (intro hex_value_nth) simp
  have d2: "hex_value (hex_digits ! (?n div 256 mod 16)) = Some (?n div 256 mod 16)"
    by (intro hex_value_nth) simp
  have d1: "hex_value (hex_digits ! (?n div 16 mod 16)) = Some (?n div 16 mod 16)"
    by (intro hex_value_nth) simp
  have d0: "hex_value (hex_digits ! (?n mod 16)) = Some (?n mod 16)"
    by (intro hex_value_nth) simp
  have h: "hex4 (hex_digits ! (?n div 4096)) (hex_digits ! (?n div 256 mod 16))
             (hex_digits ! (?n div 16 mod 16)) (hex_digits ! (?n mod 16)) = Some ?n"
    unfolding hex4_def d3 d2 d1 d0 by (simp only: prod.case option.case four_digits)
  show ?thesis
    by (simp add: unicode_escape_def Let_def h)
qed

lemma unicode_escape_hd: "unicode_escape c = cu CHR 0x5C # tl (unicode_escape c)"
  by (simp add: unicode_escape_def Let_def)

lemma parse_chars_unicode_escape:
  "parse_chars (unicode_escape c @ t) =
     (case parse_chars t of Inl e \<Rightarrow> Inl e | Inr (s, rest) \<Rightarrow> Inr (c # s, rest))"
proof -
  have e: "unicode_escape c @ t = cu CHR 0x5C # (tl (unicode_escape c) @ t)"
    using unicode_escape_hd [of c] by simp
  show ?thesis
    unfolding e by (simp add: parse_escape_unicode)
qed

lemma parse_chars_raw:
  assumes "c \<noteq> cu CHR 0x22" "c \<noteq> cu CHR 0x5C" "\<not> unat c < 32"
  shows "parse_chars (c # t) =
     (case parse_chars t of Inl e \<Rightarrow> Inl e | Inr (s, rest) \<Rightarrow> Inr (c # s, rest))"
  using assms by simp

lemma parse_chars_quote_char:
  "parse_chars (quote_char c @ t) =
     (case parse_chars t of Inl e \<Rightarrow> Inl e | Inr (s, rest) \<Rightarrow> Inr (c # s, rest))"
proof -
  consider (b) "c = cu CHR 0x08" | (t) "c = cu CHR 0x09" | (n) "c = cu CHR 0x0A" | (f) "c = cu CHR 0x0C"
    | (r) "c = cu CHR 0x0D" | (q) "c = cu CHR 0x22" | (s) "c = cu CHR 0x5C"
    | (u) "c \<noteq> cu CHR 0x08" "c \<noteq> cu CHR 0x09" "c \<noteq> cu CHR 0x0A" "c \<noteq> cu CHR 0x0C" "c \<noteq> cu CHR 0x0D"
          "c \<noteq> cu CHR 0x22" "c \<noteq> cu CHR 0x5C" "unat c < 32"
    | (p) "c \<noteq> cu CHR 0x08" "c \<noteq> cu CHR 0x09" "c \<noteq> cu CHR 0x0A" "c \<noteq> cu CHR 0x0C" "c \<noteq> cu CHR 0x0D"
          "c \<noteq> cu CHR 0x22" "c \<noteq> cu CHR 0x5C" "\<not> unat c < 32"
    by blast
  then show ?thesis
  proof cases
    case u
    then have "quote_char c = unicode_escape c" by (simp add: quote_char_def)
    then show ?thesis by (simp only: parse_chars_unicode_escape)
  next
    case p
    then show ?thesis by (simp add: quote_char_def)
  qed (simp_all add: quote_char_def split: sum.split)
qed

lemma surrogate_raw:
  assumes "is_lead c \<or> is_trail c"
  shows "c \<noteq> cu CHR 0x22" "c \<noteq> cu CHR 0x5C" "\<not> unat c < 32"
proof -
  have big: "0xD800 \<le> unat c" using assms by (auto simp: is_lead_def is_trail_def)
  show "\<not> unat c < 32" using big by simp
  show "c \<noteq> cu CHR 0x22"
  proof
    assume "c = cu CHR 0x22"
    then have "unat c = 34" by simp
    with big show False by simp
  qed
  show "c \<noteq> cu CHR 0x5C"
  proof
    assume "c = cu CHR 0x5C"
    then have "unat c = 92" by simp
    with big show False by simp
  qed
qed

lemma parse_chars_quoted:
  "parse_chars (quote_units s @ cu CHR 0x22 # rest) = Inr (s, rest)"
proof (induction s rule: quote_units.induct)
  case 1
  show ?case by simp
next
  case (2 c)
  have base: "parse_chars (cu CHR 0x22 # rest) = Inr ([], rest)" by simp
  show ?case
    by (cases "is_lead c \<or> is_trail c")
       (simp_all add: parse_chars_unicode_escape parse_chars_quote_char base del: parse_chars.simps)
next
  case (3 c d ds)
  show ?case
  proof (cases "is_lead c \<and> is_trail d")
    case True
    have pc: "parse_chars (c # t) =
       (case parse_chars t of Inl e \<Rightarrow> Inl e | Inr (s, rest) \<Rightarrow> Inr (c # s, rest))" for t
      using True surrogate_raw [of c] by (intro parse_chars_raw) simp_all
    have pd: "parse_chars (d # t) =
       (case parse_chars t of Inl e \<Rightarrow> Inl e | Inr (s, rest) \<Rightarrow> Inr (d # s, rest))" for t
      using True surrogate_raw [of d] by (intro parse_chars_raw) simp_all
    have ih: "parse_chars (quote_units ds @ cu CHR 0x22 # rest) = Inr (ds, rest)"
      using "3.IH"(1) [OF True] .
    show ?thesis
      using True by (simp add: pc pd ih del: parse_chars.simps)
  next
    case False
    show ?thesis
    proof (cases "is_lead c \<or> is_trail c")
      case True
      have ih: "parse_chars (quote_units (d # ds) @ cu CHR 0x22 # rest) = Inr (d # ds, rest)"
        using "3.IH"(2) [OF False True] .
      have q: "quote_units (c # d # ds) = unicode_escape c @ quote_units (d # ds)"
        using False True by (auto simp del: quote_units.simps(2))
      show ?thesis
        unfolding q by (simp add: parse_chars_unicode_escape ih del: parse_chars.simps quote_units.simps)
    next
      case nsur: False
      have ih: "parse_chars (quote_units (d # ds) @ cu CHR 0x22 # rest) = Inr (d # ds, rest)"
        using "3.IH"(3) [OF False nsur] .
      have q: "quote_units (c # d # ds) = quote_char c @ quote_units (d # ds)"
        using False nsur by (auto simp del: quote_units.simps(2))
      show ?thesis
        unfolding q by (simp add: parse_chars_quote_char ih del: parse_chars.simps quote_units.simps)
    qed
  qed
qed

lemma parse_chars_QuoteJSONString:
  "parse_chars (tl (QuoteJSONString s) @ rest) = Inr (s, rest)"
  by (simp add: QuoteJSONString_def parse_chars_quoted)

text \<open>
  Two evaluations beyond Latin-1: the export copies a dash (U+2014) and a surrogate pair and
  escapes a surrogate that stands alone; the parser reads the escape \<^verbatim>\<open>\u2014\<close>.
\<close>

lemma quote_beyond_latin1:
  "QuoteJSONString [0x2014, 0xD83D, 0xDE00, 0xD800]
     = cu CHR 0x22 # [0x2014, 0xD83D, 0xDE00] @ cu CHR 0x5C # js ''ud800'' @ [cu CHR 0x22]"
  by (simp add: QuoteJSONString_def is_lead_def is_trail_def unicode_escape_def hex_digits_def
      quote_char_def cu_def)

lemma parse_dash_escape:
  "JSON_parse (cu CHR 0x22 # cu CHR 0x5C # js ''u2014'' @ [cu CHR 0x22]) = Inr (JString [0x2014])"
  by (simp add: JSON_parse_def skip_ws_def is_ws_def hex4_def hex_value_def eval_nat_numeral)


subsection \<open>Objects\<close>

lemma foldl_CreateDataProperty:
  "distinct (map fst (acc @ ps)) \<Longrightarrow> foldl CreateDataProperty acc ps = acc @ ps"
proof (induction ps arbitrary: acc)
  case Nil
  then show ?case by simp
next
  case (Cons p ps)
  have new: "fst p \<notin> set (map fst acc)" using Cons.prems by auto
  have "foldl CreateDataProperty acc (p # ps) = foldl CreateDataProperty (acc @ [p]) ps"
    using new by (simp add: CreateDataProperty_def)
  also have "\<dots> = (acc @ [p]) @ ps"
    using Cons.prems by (intro Cons.IH) simp
  finally show ?case by simp
qed

lemma build_object_wf:
  assumes "distinct (map fst ps)" and "list_all (\<lambda>p. \<not> digits_only (fst p)) ps"
  shows "build_object ps = Inr (JObject ps)"
proof -
  have "\<not> list_ex (\<lambda>m. digits_only (fst m)) ps"
    using assms(2) by (simp add: list_ex_iff list_all_iff)
  moreover have "foldl CreateDataProperty [] ps = ps"
    using assms(1) foldl_CreateDataProperty [of "[]" ps] by simp
  ultimately show ?thesis by (simp add: build_object_def)
qed


subsection \<open>White space and the first character of a value\<close>

lemma skip_ws_append: "list_all is_ws w \<Longrightarrow> skip_ws (w @ t) = skip_ws t"
  by (induction w) (simp_all add: skip_ws_def)

lemma skip_ws_Cons: "\<not> is_ws c \<Longrightarrow> skip_ws (c # t) = c # t"
  by (simp add: skip_ws_def)

lemma is_ws_simps [simp]:
  "is_ws (cu CHR 0x0A)" "is_ws (cu CHR '' '')" "\<not> is_ws (cu CHR '','')" "\<not> is_ws (cu CHR '':'')"
  "\<not> is_ws (cu CHR '']'')" "\<not> is_ws (cu CHR ''}'')" "\<not> is_ws (cu CHR ''['')" "\<not> is_ws (cu CHR ''{'')"
  "\<not> is_ws (cu CHR 0x22)"
  by (simp_all add: is_ws_def)

lemma gap_ws: "list_all is_ws gap"
  by (simp add: gap_def)

lemma ser_head:
  "\<exists>c t. SerializeJSONProperty ind v = c # t \<and> \<not> is_ws c \<and> c \<noteq> cu CHR '']'' \<and> c \<noteq> cu CHR ''}''"
  by (cases v) (simp_all add: QuoteJSONString_def is_ws_def)

lemma join_head:
  assumes "xs \<noteq> []" and "\<And>x. x \<in> set xs \<Longrightarrow> \<exists>c t. f x = c # t \<and> Q c"
  shows "\<exists>c t. join sep (map f xs) = c # t \<and> Q c"
proof (cases xs)
  case Nil
  with assms(1) show ?thesis by simp
next
  case (Cons x ys)
  obtain c t where ct: "f x = c # t" "Q c" using assms(2) [of x] Cons by auto
  show ?thesis
    using ct Cons by (cases ys) simp_all
qed


subsection \<open>Elements and members\<close>

lemma parse_elements_roundtrip:
  assumes IH: "\<And>x n rest. x \<in> set xs \<Longrightarrow> length (SerializeJSONProperty ind' x) \<le> n \<Longrightarrow>
                 parse_value n (SerializeJSONProperty ind' x @ rest) = Inr (x, rest)"
    and ne: "xs \<noteq> []"
    and ws: "list_all is_ws ind'" "list_all is_ws ind"
    and fuel: "length (join (cu CHR '','' # cu CHR 0x0A # ind') (map (SerializeJSONProperty ind') xs)) < n"
  shows "parse_elements n
           (join (cu CHR '','' # cu CHR 0x0A # ind') (map (SerializeJSONProperty ind') xs)
              @ cu CHR 0x0A # ind @ cu CHR '']'' # rest)
         = Inr (xs, rest)"
  using IH ne fuel
proof (induction xs arbitrary: n)
  case Nil
  then show ?case by simp
next
  case (Cons x ys)
  obtain k where n: "n = Suc k" using Cons.prems(3) by (cases n) simp_all
  show ?case
  proof (cases ys)
    case Nil
    have fx: "length (SerializeJSONProperty ind' x) \<le> k"
      using Cons.prems(3) n Nil by simp
    have px: "parse_value k (SerializeJSONProperty ind' x @ cu CHR 0x0A # ind @ cu CHR '']'' # rest)
                = Inr (x, cu CHR 0x0A # ind @ cu CHR '']'' # rest)"
      using Cons.prems(1) [of x k] fx by simp
    have sk: "skip_ws (cu CHR 0x0A # ind @ cu CHR '']'' # rest) = cu CHR '']'' # rest"
      using skip_ws_append [of "(cu CHR 0x0A) # ind" "(cu CHR '']'') # rest"] ws(2)
      by (simp add: skip_ws_Cons)
    show ?thesis
      using px sk by (simp add: n Nil)
  next
    case (Cons y zs)
    let ?sep = "(cu CHR '','') # cu CHR 0x0A # ind'"
    let ?more = "join ?sep (map (SerializeJSONProperty ind') ys) @ cu CHR 0x0A # ind @ cu CHR '']'' # rest"
    have split: "join ?sep (map (SerializeJSONProperty ind') (x # ys)) @ cu CHR 0x0A # ind @ cu CHR '']'' # rest
                 = SerializeJSONProperty ind' x @ ?sep @ ?more"
      using Cons by simp
    have len: "length (join ?sep (map (SerializeJSONProperty ind') (x # ys)))
                 = length (SerializeJSONProperty ind' x) + length ?sep
                   + length (join ?sep (map (SerializeJSONProperty ind') ys))"
      using Cons by simp
    have fx: "length (SerializeJSONProperty ind' x) \<le> k"
      using Cons.prems(3) n len by simp
    have fys: "length (join ?sep (map (SerializeJSONProperty ind') ys)) < k"
      using \<open>length (join ?sep (map (SerializeJSONProperty ind') (x # ys))) < n\<close> n len by simp
    have px: "parse_value k (SerializeJSONProperty ind' x @ ?sep @ ?more) = Inr (x, ?sep @ ?more)"
      using Cons.prems(1) [of x k] fx by simp
    have "\<exists>c t. join ?sep (map (SerializeJSONProperty ind') ys) = c # t \<and> \<not> is_ws c"
    proof (rule join_head)
      show "ys \<noteq> []" using Cons by simp
      show "\<exists>c t. SerializeJSONProperty ind' x = c # t \<and> \<not> is_ws c" for x
        using ser_head [of ind' x] by blast
    qed
    then obtain c t where hd: "join ?sep (map (SerializeJSONProperty ind') ys) = c # t" "\<not> is_ws c"
      by blast
    have sk: "skip_ws (cu CHR 0x0A # ind' @ ?more) = ?more"
      using skip_ws_append [of "(cu CHR 0x0A) # ind'" ?more] ws(1) hd
      by (simp add: skip_ws_Cons)
    have rec: "parse_elements k ?more = Inr (ys, rest)"
      using Cons.prems(1) Cons fys by (intro Cons.IH) simp_all
    show ?thesis
      unfolding split n using px sk rec
      by (simp add: skip_ws_Cons)
  qed
qed

lemma member_text_head: "\<exists>c t. member_text ind' p = c # t \<and> \<not> is_ws c"
  by (simp add: member_text_def QuoteJSONString_def)

lemma member_text_length: "length (SerializeJSONProperty ind' (snd p)) < length (member_text ind' p)"
  by (simp add: member_text_def QuoteJSONString_def)

lemma parse_member_step:
  assumes pv: "parse_value k (SerializeJSONProperty ind' (snd p) @ after) = Inr (snd p, after)"
  shows "parse_members (Suc k) (member_text ind' p @ after) =
     (case skip_ws after of
        [] \<Rightarrow> Inl SyntaxError
      | d # r \<Rightarrow>
          if d = cu CHR '','' then
            (case parse_members k (skip_ws r) of
               Inl e \<Rightarrow> Inl e
             | Inr (ms, rest) \<Rightarrow> Inr (p # ms, rest))
          else if d = cu CHR ''}'' then Inr ([p], r)
          else Inl SyntaxError)"
proof -
  let ?v = "SerializeJSONProperty ind' (snd p)"
  have shape: "member_text ind' p @ after
               = cu CHR 0x22 # (tl (QuoteJSONString (fst p)) @ cu CHR '':'' # cu CHR '' '' # ?v @ after)"
    by (simp add: member_text_def QuoteJSONString_def)
  have key: "parse_chars (tl (QuoteJSONString (fst p)) @ cu CHR '':'' # cu CHR '' '' # ?v @ after)
               = Inr (fst p, cu CHR '':'' # cu CHR '' '' # ?v @ after)"
    by (rule parse_chars_QuoteJSONString)
  obtain c t where hd: "?v = c # t" "\<not> is_ws c" using ser_head [of ind' "snd p"] by blast
  have sk: "skip_ws (cu CHR '' '' # ?v @ after) = ?v @ after"
    using hd by (simp add: skip_ws_def)
  show ?thesis
    unfolding shape
    by (simp add: key skip_ws_Cons sk pv del: parse_chars.simps split: list.split sum.split)
qed

lemma parse_members_roundtrip:
  assumes IH: "\<And>p n rest. p \<in> set ps \<Longrightarrow> length (SerializeJSONProperty ind' (snd p)) \<le> n \<Longrightarrow>
                 parse_value n (SerializeJSONProperty ind' (snd p) @ rest) = Inr (snd p, rest)"
    and ne: "ps \<noteq> []"
    and ws: "list_all is_ws ind'" "list_all is_ws ind"
    and fuel: "length (join (cu CHR '','' # cu CHR 0x0A # ind') (map (member_text ind') ps)) < n"
  shows "parse_members n
           (join (cu CHR '','' # cu CHR 0x0A # ind') (map (member_text ind') ps)
              @ cu CHR 0x0A # ind @ cu CHR ''}'' # rest)
         = Inr (ps, rest)"
  using IH ne fuel
proof (induction ps arbitrary: n)
  case Nil
  then show ?case by simp
next
  case (Cons p qs)
  obtain k where n: "n = Suc k" using Cons.prems(3) by (cases n) simp_all
  show ?case
  proof (cases qs)
    case Nil
    have fx: "length (SerializeJSONProperty ind' (snd p)) \<le> k"
      using Cons.prems(3) n Nil member_text_length [of ind' p] by simp
    have pv: "parse_value k (SerializeJSONProperty ind' (snd p) @ cu CHR 0x0A # ind @ cu CHR ''}'' # rest)
                = Inr (snd p, cu CHR 0x0A # ind @ cu CHR ''}'' # rest)"
      using Cons.prems(1) [of p k] fx by simp
    have sk: "skip_ws (cu CHR 0x0A # ind @ cu CHR ''}'' # rest) = cu CHR ''}'' # rest"
      using skip_ws_append [of "(cu CHR 0x0A) # ind" "(cu CHR ''}'') # rest"] ws(2)
      by (simp add: skip_ws_Cons)
    show ?thesis
      unfolding n using parse_member_step [OF pv] sk by (simp add: Nil)
  next
    case (Cons q rs)
    let ?sep = "(cu CHR '','') # cu CHR 0x0A # ind'"
    let ?more = "join ?sep (map (member_text ind') qs) @ cu CHR 0x0A # ind @ cu CHR ''}'' # rest"
    have split: "join ?sep (map (member_text ind') (p # qs)) @ cu CHR 0x0A # ind @ cu CHR ''}'' # rest
                 = member_text ind' p @ ?sep @ ?more"
      using Cons by simp
    have len: "length (join ?sep (map (member_text ind') (p # qs)))
                 = length (member_text ind' p) + length ?sep
                   + length (join ?sep (map (member_text ind') qs))"
      using Cons by simp
    have fx: "length (SerializeJSONProperty ind' (snd p)) \<le> k"
      using \<open>length (join ?sep (map (member_text ind') (p # qs))) < n\<close> n len
        member_text_length [of ind' p] by simp
    have fqs: "length (join ?sep (map (member_text ind') qs)) < k"
      using \<open>length (join ?sep (map (member_text ind') (p # qs))) < n\<close> n len
        member_text_length [of ind' p] by simp
    have pv: "parse_value k (SerializeJSONProperty ind' (snd p) @ ?sep @ ?more)
                = Inr (snd p, ?sep @ ?more)"
      using Cons.prems(1) [of p k] fx by simp
    have "\<exists>c t. join ?sep (map (member_text ind') qs) = c # t \<and> \<not> is_ws c"
    proof (rule join_head)
      show "qs \<noteq> []" using Cons by simp
      show "\<exists>c t. member_text ind' x = c # t \<and> \<not> is_ws c" for x
        by (rule member_text_head)
    qed
    then obtain c t where hd: "join ?sep (map (member_text ind') qs) = c # t" "\<not> is_ws c"
      by blast
    have sk: "skip_ws (cu CHR 0x0A # ind' @ ?more) = ?more"
      using skip_ws_append [of "(cu CHR 0x0A) # ind'" ?more] ws(1) hd
      by (simp add: skip_ws_Cons)
    have rec: "parse_members k ?more = Inr (qs, rest)"
      using Cons.prems(1) Cons fqs by (intro Cons.IH) simp_all
    show ?thesis
      unfolding split n using parse_member_step [OF pv] sk rec
      by (simp add: skip_ws_Cons)
  qed
qed


subsection \<open>Values\<close>

lemma SerializeJSONProperty_object:
  "SerializeJSONProperty ind (JObject ps) =
     (if ps = [] then js ''{}''
      else js ''{'' @ [cu CHR 0x0A] @ (ind @ gap)
           @ join (js '','' @ [cu CHR 0x0A] @ (ind @ gap)) (map (member_text (ind @ gap)) ps)
           @ [cu CHR 0x0A] @ ind @ js ''}'')"
proof -
  have "(\<lambda>(k, v). QuoteJSONString k @ js '': '' @ SerializeJSONProperty (ind @ gap) v)
          = member_text (ind @ gap)"
    by (rule ext) (simp add: member_text_def split: prod.split)
  then show ?thesis by simp
qed

lemma parse_value_roundtrip:
  "wf_json v \<Longrightarrow> list_all is_ws ind \<Longrightarrow> length (SerializeJSONProperty ind v) \<le> n \<Longrightarrow>
     parse_value n (SerializeJSONProperty ind v @ rest) = Inr (v, rest)"
proof (induction v arbitrary: ind n rest)
  case JNull
  then obtain k where "n = Suc k" by (cases n) simp_all
  then show ?case by simp
next
  case (JBool b)
  then obtain k where "n = Suc k" by (cases n) (simp_all split: if_splits)
  then show ?case by simp
next
  case (JString s)
  then obtain k where n: "n = Suc k" by (cases n) (simp_all add: QuoteJSONString_def)
  have shape: "SerializeJSONProperty ind (JString s) @ rest = cu CHR 0x22 # (tl (QuoteJSONString s) @ rest)"
    by (simp add: QuoteJSONString_def)
  show ?case
    unfolding shape n by (simp add: parse_chars_QuoteJSONString del: parse_chars.simps)
next
  case (JArray xs)
  then obtain k where n: "n = Suc k" by (cases n) (simp_all split: if_splits)
  show ?case
  proof (cases "xs = []")
    case True
    then show ?thesis by (simp add: n skip_ws_Cons)
  next
    case False
    let ?ind' = "ind @ gap"
    let ?sep = "(cu CHR '','') # cu CHR 0x0A # ?ind'"
    let ?body = "join ?sep (map (SerializeJSONProperty ?ind') xs)"
    have ws': "list_all is_ws ?ind'" using JArray.prems(2) gap_ws by simp
    have shape: "SerializeJSONProperty ind (JArray xs) @ rest
                   = cu CHR ''['' # cu CHR 0x0A # ?ind' @ ?body @ cu CHR 0x0A # ind @ cu CHR '']'' # rest"
      using False by simp
    have fuel: "length ?body < k"
      using JArray.prems(3) False n by simp
    have "\<exists>c t. ?body = c # t \<and> (\<not> is_ws c \<and> c \<noteq> cu CHR '']'')"
    proof (rule join_head)
      show "xs \<noteq> []" by (rule False)
      show "\<exists>c t. SerializeJSONProperty ?ind' x = c # t \<and> (\<not> is_ws c \<and> c \<noteq> cu CHR '']'')" for x
        using ser_head [of ?ind' x] by blast
    qed
    then obtain c t where hd: "?body = c # t" "\<not> is_ws c" "c \<noteq> cu CHR '']''" by blast
    have sk: "skip_ws (cu CHR 0x0A # ?ind' @ ?body @ cu CHR 0x0A # ind @ cu CHR '']'' # rest)
                = c # t @ cu CHR 0x0A # ind @ cu CHR '']'' # rest"
      using skip_ws_append [of "(cu CHR 0x0A) # ?ind'" "?body @ cu CHR 0x0A # ind @ cu CHR '']'' # rest"] ws' hd
      by (simp add: skip_ws_Cons)
    have elems: "parse_elements k (?body @ cu CHR 0x0A # ind @ cu CHR '']'' # rest) = Inr (xs, rest)"
    proof (rule parse_elements_roundtrip)
      show "parse_value m (SerializeJSONProperty ?ind' x @ r) = Inr (x, r)"
        if "x \<in> set xs" "length (SerializeJSONProperty ?ind' x) \<le> m" for x m r
        using that JArray.prems(1) ws' by (intro JArray.IH) (simp_all add: list_all_iff)
    qed (use False ws' JArray.prems(2) fuel in simp_all)
    show ?thesis
      unfolding shape n using sk elems hd by simp
  qed
next
  case (JObject ps)
  then obtain k where n: "n = Suc k" by (cases n) (simp_all split: if_splits)
  have build: "build_object ps = Inr (JObject ps)"
    using JObject.prems(1) by (intro build_object_wf) (simp_all add: list_all_iff)
  show ?case
  proof (cases "ps = []")
    case True
    then show ?thesis by (simp add: n skip_ws_Cons)
  next
    case False
    let ?ind' = "ind @ gap"
    let ?sep = "(cu CHR '','') # cu CHR 0x0A # ?ind'"
    let ?body = "join ?sep (map (member_text ?ind') ps)"
    have ws': "list_all is_ws ?ind'" using JObject.prems(2) gap_ws by simp
    have shape: "SerializeJSONProperty ind (JObject ps) @ rest
                   = cu CHR ''{'' # cu CHR 0x0A # ?ind' @ ?body @ cu CHR 0x0A # ind @ cu CHR ''}'' # rest"
      using False by (simp add: SerializeJSONProperty_object del: SerializeJSONProperty.simps)
    have fuel: "length ?body < k"
      using JObject.prems(3) False n
      by (simp add: SerializeJSONProperty_object del: SerializeJSONProperty.simps)
    have "\<exists>c t. ?body = c # t \<and> c = cu CHR 0x22"
    proof (rule join_head)
      show "ps \<noteq> []" by (rule False)
      show "\<exists>c t. member_text ?ind' p = c # t \<and> c = cu CHR 0x22" for p
        by (simp add: member_text_def QuoteJSONString_def)
    qed
    then obtain t where hd: "?body = cu CHR 0x22 # t" by blast
    have sk: "skip_ws (cu CHR 0x0A # ?ind' @ ?body @ cu CHR 0x0A # ind @ cu CHR ''}'' # rest)
                = cu CHR 0x22 # t @ cu CHR 0x0A # ind @ cu CHR ''}'' # rest"
      using skip_ws_append [of "(cu CHR 0x0A) # ?ind'" "?body @ cu CHR 0x0A # ind @ cu CHR ''}'' # rest"] ws' hd
      by (simp add: skip_ws_Cons)
    have membs: "parse_members k (?body @ cu CHR 0x0A # ind @ cu CHR ''}'' # rest) = Inr (ps, rest)"
    proof (rule parse_members_roundtrip)
      show "parse_value m (SerializeJSONProperty ?ind' (snd p) @ r) = Inr (snd p, r)"
        if "p \<in> set ps" "length (SerializeJSONProperty ?ind' (snd p)) \<le> m" for p m r
      proof (rule JObject.IH)
        show "p \<in> set ps" by (rule that(1))
        show "snd p \<in> Basic_BNFs.snds p" by (cases p) simp
        show "wf_json (snd p)" using JObject.prems(1) that(1) by (simp add: list_all_iff)
        show "list_all is_ws ?ind'" by (rule ws')
        show "length (SerializeJSONProperty ?ind' (snd p)) \<le> m" by (rule that(2))
      qed
    qed (use False ws' JObject.prems(2) fuel in simp_all)
    show ?thesis
      unfolding shape n using sk membs hd build by simp
  qed
qed

theorem JSON_parse_stringify: "wf_json v \<Longrightarrow> JSON_parse (JSON_stringify v) = Inr v"
proof -
  assume wf: "wf_json v"
  obtain c t where hd: "SerializeJSONProperty [] v = c # t" "\<not> is_ws c"
    using ser_head [of "[]" v] by blast
  have "parse_value (2 * length (SerializeJSONProperty [] v) + 1) (SerializeJSONProperty [] v @ [])
          = Inr (v, [])"
    using wf by (intro parse_value_roundtrip) simp_all
  then show ?thesis
    using hd by (simp add: JSON_parse_def JSON_stringify_def skip_ws_def)
qed


subsection \<open>The parser never runs out of fuel\<close>

lemma skip_ws_length: "length (skip_ws s) \<le> length s"
  by (simp add: skip_ws_def length_dropWhile_le)

lemma skip_ws_Cons_length: "skip_ws s = c # r \<Longrightarrow> length r < length s"
  using skip_ws_length [of s] by simp

lemma parse_chars_shorter: "parse_chars s = Inr (k, r) \<Longrightarrow> length r < length s"
proof (induction s arbitrary: k r rule: parse_chars.induct)
  case 1
  then show ?case by simp
next
  case (2 c cs)
  show ?case
  proof (cases "c = cu CHR 0x22")
    case True
    with "2.prems" show ?thesis by simp
  next
    case nq: False
    show ?thesis
    proof (cases "c = cu CHR 0x5C")
      case True
      with nq "2.prems" obtain d r0 s0 where e: "parse_escape cs = Inr (d, r0)"
        and p: "parse_chars r0 = Inr (s0, r)"
        by (auto split: sum.splits)
      have "length r < length r0" using "2.IH"(1) [OF nq True _ _ p] e by simp
      moreover have "length r0 < length cs" using e by (rule parse_escape_shorter)
      ultimately show ?thesis by simp
    next
      case False
      with nq "2.prems" obtain s0 where ok: "\<not> unat c < 32"
        and p: "parse_chars cs = Inr (s0, r)"
        by (auto split: sum.splits if_splits)
      have "length r < length cs" using "2.IH"(2) [OF nq False ok p] .
      then show ?thesis by simp
    qed
  qed
qed

lemma take_literal_length: "take k s = lit \<Longrightarrow> lit \<noteq> [] \<Longrightarrow> 0 < k \<Longrightarrow> length (drop k s) < length s"
  by (cases s) auto

lemma parse_shorter:
  "(\<forall>s v r. parse_value n s = Inr (v, r) \<longrightarrow> length r < length s)
   \<and> (\<forall>s xs r. parse_elements n s = Inr (xs, r) \<longrightarrow> length r < length s)
   \<and> (\<forall>s ms r. parse_members n s = Inr (ms, r) \<longrightarrow> length r < length s)"
proof (induction n)
  case 0
  show ?case by simp
next
  case (Suc n)
  have V: "length r < length s" if "parse_value n s = Inr (v, r)" for s v r
    using Suc that by blast
  have E: "length r < length s" if "parse_elements n s = Inr (xs, r)" for s xs r
    using Suc that by blast
  have M: "length r < length s" if "parse_members n s = Inr (ms, r)" for s ms r
    using Suc that by blast
  have v: "length r < length s" if h: "parse_value (Suc n) s = Inr (v, r)" for s v r
  proof (cases s)
    case Nil
    with h show ?thesis by simp
  next
    case (Cons c cs)
    consider (obj) "c = cu CHR ''{''" | (arr) "c \<noteq> cu CHR ''{''" "c = cu CHR ''[''"
      | (str) "c \<noteq> cu CHR ''{''" "c \<noteq> cu CHR ''[''" "c = cu CHR 0x22"
      | (lit) "c \<noteq> cu CHR ''{''" "c \<noteq> cu CHR ''[''" "c \<noteq> cu CHR 0x22"
      by blast
    then show ?thesis
    proof cases
      case obj
      show ?thesis
      proof (cases "skip_ws cs")
        case Nil
        with h Cons obj show ?thesis by simp
      next
        case (Cons d r0)
        note sk = this
        have l0: "length r0 < length cs" using sk by (rule skip_ws_Cons_length)
        show ?thesis
        proof (cases "d = cu CHR ''}''")
          case True
          with h \<open>s = c # cs\<close> obj sk l0 show ?thesis by simp
        next
          case False
          with h \<open>s = c # cs\<close> obj sk obtain ms where "parse_members n (d # r0) = Inr (ms, r)"
            by (auto split: sum.splits)
          then have "length r < length (d # r0)" by (rule M)
          with l0 \<open>s = c # cs\<close> show ?thesis by simp
        qed
      qed
    next
      case arr
      show ?thesis
      proof (cases "skip_ws cs")
        case Nil
        with h Cons arr show ?thesis by simp
      next
        case (Cons d r0)
        note sk = this
        have l0: "length r0 < length cs" using sk by (rule skip_ws_Cons_length)
        show ?thesis
        proof (cases "d = cu CHR '']''")
          case True
          with h \<open>s = c # cs\<close> arr sk l0 show ?thesis by simp
        next
          case False
          with h \<open>s = c # cs\<close> arr sk obtain xs where "parse_elements n (d # r0) = Inr (xs, r)"
            by (auto split: sum.splits)
          then have "length r < length (d # r0)" by (rule E)
          with l0 \<open>s = c # cs\<close> show ?thesis by simp
        qed
      qed
    next
      case str
      with h Cons obtain k where "parse_chars cs = Inr (k, r)"
        by (auto split: sum.splits)
      then have "length r < length cs" by (rule parse_chars_shorter)
      with Cons show ?thesis by simp
    next
      case lit
      with h Cons have "r = drop 4 s \<or> r = drop 5 s"
        by (auto split: if_splits)
      then show ?thesis using Cons by auto
    qed
  qed
  have e: "length r < length s" if h: "parse_elements (Suc n) s = Inr (xs, r)" for s xs r
  proof -
    from h obtain x s1 where pv: "parse_value n s = Inr (x, s1)"
      by (auto split: sum.splits)
    have l1: "length s1 < length s" using pv by (rule V)
    from h pv obtain c r0 where sk: "skip_ws s1 = c # r0"
      by (cases "skip_ws s1") auto
    have l0: "length r0 < length s1" using sk by (rule skip_ws_Cons_length)
    show ?thesis
    proof (cases "c = cu CHR '',''")
      case True
      with h pv sk obtain ys where "parse_elements n (skip_ws r0) = Inr (ys, r)"
        by (auto split: sum.splits)
      then have "length r < length (skip_ws r0)" by (rule E)
      with skip_ws_length [of r0] l0 l1 show ?thesis by simp
    next
      case False
      with h pv sk have "r = r0" by (auto split: if_splits)
      with l0 l1 show ?thesis by simp
    qed
  qed
  have m: "length r < length s" if h: "parse_members (Suc n) s = Inr (ms, r)" for s ms r
  proof -
    from h obtain s0 where s: "s = cu CHR 0x22 # s0"
      by (cases s) (auto split: if_splits)
    from h s obtain k s1 where pc: "parse_chars s0 = Inr (k, s1)"
      by (auto split: sum.splits)
    have l1: "length s1 < length s0" using pc by (rule parse_chars_shorter)
    from h s pc obtain s2 where sk1: "skip_ws s1 = cu CHR '':'' # s2"
      by (cases "skip_ws s1") (auto split: if_splits)
    have l2: "length s2 < length s1" using sk1 by (rule skip_ws_Cons_length)
    from h s pc sk1 obtain v s3 where pv: "parse_value n (skip_ws s2) = Inr (v, s3)"
      by (auto split: sum.splits)
    have l3: "length s3 < length s2" using V [OF pv] skip_ws_length [of s2] by simp
    from h s pc sk1 pv obtain d r0 where sk3: "skip_ws s3 = d # r0"
      by (cases "skip_ws s3") auto
    have l4: "length r0 < length s3" using sk3 by (rule skip_ws_Cons_length)
    show ?thesis
    proof (cases "d = cu CHR '',''")
      case True
      with h s pc sk1 pv sk3 obtain ns where "parse_members n (skip_ws r0) = Inr (ns, r)"
        by (auto split: sum.splits)
      then have "length r < length (skip_ws r0)" by (rule M)
      with skip_ws_length [of r0] l1 l2 l3 l4 s show ?thesis by simp
    next
      case False
      with h s pc sk1 pv sk3 have "r = r0" by (auto split: if_splits)
      with l1 l2 l3 l4 s show ?thesis by simp
    qed
  qed
  show ?case using v e m by blast
qed

lemma parse_value_shorter: "parse_value n s = Inr (v, r) \<Longrightarrow> length r < length s"
  using parse_shorter [of n] by blast

lemma build_object_fuel: "build_object ms \<noteq> Inl OutOfFuel"
  by (simp add: build_object_def)

lemma parse_unicode_fuel:
  "(case r of
      a # b # c # d # r' \<Rightarrow>
        (case hex4 a b c d of
           None \<Rightarrow> Inl SyntaxError
         | Some n \<Rightarrow> Inr (of_nat n, r'))
    | _ \<Rightarrow> Inl SyntaxError) \<noteq> (Inl OutOfFuel :: error + (unit16 \<times> jstring))"
  by (simp split: list.split option.split)

lemma parse_escape_fuel: "parse_escape s \<noteq> Inl OutOfFuel"
proof (cases s)
  case Nil
  then show ?thesis by simp
next
  case (Cons e r)
  show ?thesis
  proof (cases "e = cu CHR ''u''")
    case True
    then show ?thesis using Cons parse_unicode_fuel [of r] by simp
  next
    case False
    then show ?thesis using Cons by simp
  qed
qed

lemma parse_chars_fuel: "parse_chars s \<noteq> Inl OutOfFuel"
proof (induction s rule: parse_chars.induct)
  case 1
  show ?case by simp
next
  case (2 c cs)
  have step: "parse_chars (c # cs) =
     (if c = cu CHR 0x22 then Inr ([], cs)
      else if c = cu CHR 0x5C then
        (case parse_escape cs of
           Inl e \<Rightarrow> Inl e
         | Inr (d, r) \<Rightarrow>
             (case parse_chars r of Inl e \<Rightarrow> Inl e | Inr (s, rest) \<Rightarrow> Inr (d # s, rest)))
      else if unat c < 32 then Inl SyntaxError
      else (case parse_chars cs of Inl e \<Rightarrow> Inl e | Inr (s, rest) \<Rightarrow> Inr (c # s, rest)))"
    by (rule parse_chars.simps(2))
  show ?case
  proof (cases "c = cu CHR 0x22")
    case True
    then show ?thesis unfolding step by simp
  next
    case nq: False
    show ?thesis
    proof (cases "c = cu CHR 0x5C")
      case True
      show ?thesis
      proof (cases "parse_escape cs")
        case (Inl e)
        then show ?thesis unfolding step using nq True parse_escape_fuel [of cs] by simp
      next
        case (Inr p)
        obtain d r0 where p: "p = (d, r0)" by (cases p)
        have ih: "parse_chars r0 \<noteq> Inl OutOfFuel"
          using "2.IH"(1) [OF nq True] Inr p by simp
        show ?thesis
          unfolding step using ih Inr p nq True
          by (cases "parse_chars r0") (simp_all split: prod.split)
      qed
    next
      case False
      have ih: "\<not> unat c < 32 \<Longrightarrow> parse_chars cs \<noteq> Inl OutOfFuel"
        using "2.IH"(2) [OF nq False] by simp
      show ?thesis
        unfolding step using ih nq False
        by (cases "parse_chars cs") (simp_all split: prod.split)
    qed
  qed
qed

lemma bind_fuel:
  assumes "x \<noteq> Inl OutOfFuel" and "\<And>y. x = Inr y \<Longrightarrow> f y \<noteq> Inl OutOfFuel"
  shows "(case x of Inl e \<Rightarrow> Inl e | Inr y \<Rightarrow> f y) \<noteq> Inl OutOfFuel"
  using assms by (cases x) simp_all

lemma parse_enough_fuel:
  "(\<forall>s. 2 * length s < n \<longrightarrow> parse_value n s \<noteq> Inl OutOfFuel)
   \<and> (\<forall>s. 2 * length s + 1 < n \<longrightarrow> parse_elements n s \<noteq> Inl OutOfFuel)
   \<and> (\<forall>s. 2 * length s + 1 < n \<longrightarrow> parse_members n s \<noteq> Inl OutOfFuel)"
proof (induction n)
  case 0
  show ?case by simp
next
  case (Suc n)
  have V: "parse_value n s \<noteq> Inl OutOfFuel" if "2 * length s < n" for s
    using Suc that by blast
  have E: "parse_elements n s \<noteq> Inl OutOfFuel" if "2 * length s + 1 < n" for s
    using Suc that by blast
  have M: "parse_members n s \<noteq> Inl OutOfFuel" if "2 * length s + 1 < n" for s
    using Suc that by blast
  have v: "parse_value (Suc n) s \<noteq> Inl OutOfFuel" if f: "2 * length s < Suc n" for s
  proof (cases s)
    case Nil
    then show ?thesis by simp
  next
    case (Cons c cs)
    consider (obj) "c = cu CHR ''{''" | (arr) "c \<noteq> cu CHR ''{''" "c = cu CHR ''[''"
      | (str) "c \<noteq> cu CHR ''{''" "c \<noteq> cu CHR ''[''" "c = cu CHR 0x22"
      | (lit) "c \<noteq> cu CHR ''{''" "c \<noteq> cu CHR ''[''" "c \<noteq> cu CHR 0x22"
      by blast
    then show ?thesis
    proof cases
      case obj
      show ?thesis
      proof (cases "skip_ws cs")
        case Nil
        with Cons obj show ?thesis by simp
      next
        case sk: (Cons d r0)
        have "length r0 < length cs" using sk by (rule skip_ws_Cons_length)
        then have fuel: "2 * length (d # r0) + 1 < n" using f Cons by simp
        show ?thesis
        proof (cases "d = cu CHR ''}''")
          case True
          with Cons obj sk show ?thesis by simp
        next
          case False
          have "(case parse_members n (d # r0) of
                   Inl e \<Rightarrow> Inl e
                 | Inr y \<Rightarrow> (case y of (ms, rest) \<Rightarrow>
                     (case build_object ms of Inl e \<Rightarrow> Inl e | Inr v \<Rightarrow> Inr (v, rest))))
                \<noteq> Inl OutOfFuel"
          proof (rule bind_fuel)
            show "parse_members n (d # r0) \<noteq> Inl OutOfFuel" using fuel by (rule M)
            show "(case y of (ms, rest) \<Rightarrow>
                     (case build_object ms of Inl e \<Rightarrow> Inl e | Inr v \<Rightarrow> Inr (v, rest)))
                  \<noteq> Inl OutOfFuel" for y
              using build_object_fuel [of "fst y"]
              by (cases y; cases "build_object (fst y)") simp_all
          qed
          with Cons obj sk False show ?thesis by simp
        qed
      qed
    next
      case arr
      show ?thesis
      proof (cases "skip_ws cs")
        case Nil
        with Cons arr show ?thesis by simp
      next
        case sk: (Cons d r0)
        have "length r0 < length cs" using sk by (rule skip_ws_Cons_length)
        then have fuel: "2 * length (d # r0) + 1 < n" using f Cons by simp
        show ?thesis
        proof (cases "d = cu CHR '']''")
          case True
          with Cons arr sk show ?thesis by simp
        next
          case False
          have "(case parse_elements n (d # r0) of
                   Inl e \<Rightarrow> Inl e
                 | Inr y \<Rightarrow> (case y of (xs, rest) \<Rightarrow> Inr (JArray xs, rest)))
                \<noteq> Inl OutOfFuel"
          proof (rule bind_fuel)
            show "parse_elements n (d # r0) \<noteq> Inl OutOfFuel" using fuel by (rule E)
            show "(case y of (xs, rest) \<Rightarrow> Inr (JArray xs, rest)) \<noteq> Inl OutOfFuel" for y
              by (cases y) simp
          qed
          with Cons arr sk False show ?thesis by simp
        qed
      qed
    next
      case str
      have "(case parse_chars cs of
               Inl e \<Rightarrow> Inl e
             | Inr y \<Rightarrow> (case y of (str, rest) \<Rightarrow> Inr (JString str, rest)))
            \<noteq> Inl OutOfFuel"
      proof (rule bind_fuel)
        show "parse_chars cs \<noteq> Inl OutOfFuel" by (rule parse_chars_fuel)
        show "(case y of (str, rest) \<Rightarrow> Inr (JString str, rest)) \<noteq> Inl OutOfFuel" for y
          by (cases y) simp
      qed
      with Cons str show ?thesis by simp
    next
      case lit
      with Cons show ?thesis by simp
    qed
  qed
  have e: "parse_elements (Suc n) s \<noteq> Inl OutOfFuel" if f: "2 * length s + 1 < Suc n" for s
  proof (cases "parse_value n s")
    case (Inl err)
    have "parse_value n s \<noteq> Inl OutOfFuel" using f by (intro V) simp
    with Inl show ?thesis by simp
  next
    case (Inr p)
    obtain x s1 where p: "p = (x, s1)" by (cases p)
    have l1: "length s1 < length s" using Inr p parse_value_shorter by blast
    show ?thesis
    proof (cases "skip_ws s1")
      case Nil
      with Inr p show ?thesis by simp
    next
      case (Cons c r0)
      have "length r0 < length s1" using Cons by (rule skip_ws_Cons_length)
      then have "2 * length (skip_ws r0) + 1 < n"
        using l1 f skip_ws_length [of r0] by simp
      then have rec: "parse_elements n (skip_ws r0) \<noteq> Inl OutOfFuel" by (rule E)
      have "(case parse_elements n (skip_ws r0) of
               Inl e \<Rightarrow> Inl e
             | Inr y \<Rightarrow> (case y of (xs, rest) \<Rightarrow> Inr (x # xs, rest)))
            \<noteq> Inl OutOfFuel"
        using rec by (rule bind_fuel) (simp split: prod.split)
      with Inr p Cons show ?thesis by simp
    qed
  qed
  have m: "parse_members (Suc n) s \<noteq> Inl OutOfFuel" if f: "2 * length s + 1 < Suc n" for s
  proof (cases s)
    case Nil
    then show ?thesis by simp
  next
    case (Cons q s0)
    show ?thesis
    proof (cases "parse_chars s0")
      case (Inl err)
      with Cons parse_chars_fuel [of s0] show ?thesis by simp
    next
      case (Inr p)
      obtain k s1 where p: "p = (k, s1)" by (cases p)
      have l1: "length s1 < length s0" using Inr p parse_chars_shorter by blast
      show ?thesis
      proof (cases "skip_ws s1")
        case Nil
        with Cons Inr p show ?thesis by simp
      next
        case sk1: (Cons c s2)
        have l2: "length s2 < length s1" using sk1 by (rule skip_ws_Cons_length)
        have fv: "2 * length (skip_ws s2) < n"
          using l1 l2 f Cons skip_ws_length [of s2] by simp
        show ?thesis
        proof (cases "parse_value n (skip_ws s2)")
          case (Inl err)
          with V [OF fv] Cons Inr p sk1 show ?thesis by simp
        next
          case pv: (Inr pr)
          obtain v s3 where pr: "pr = (v, s3)" by (cases pr)
          have l3: "length s3 < length (skip_ws s2)" using pv pr parse_value_shorter by blast
          show ?thesis
          proof (cases "skip_ws s3")
            case Nil
            with Cons Inr p sk1 pv pr show ?thesis by simp
          next
            case sk3: (Cons d r0)
            have "length r0 < length s3" using sk3 by (rule skip_ws_Cons_length)
            then have "2 * length (skip_ws r0) + 1 < n"
              using l3 fv skip_ws_length [of r0] by simp
            then have rec: "parse_members n (skip_ws r0) \<noteq> Inl OutOfFuel" by (rule M)
            have "(case parse_members n (skip_ws r0) of
                     Inl e \<Rightarrow> Inl e
                   | Inr y \<Rightarrow> (case y of (ms, rest) \<Rightarrow> Inr ((k, v) # ms, rest)))
                  \<noteq> Inl OutOfFuel"
              using rec by (rule bind_fuel) (simp split: prod.split)
            with Cons Inr p sk1 pv pr sk3 show ?thesis by simp
          qed
        qed
      qed
    qed
  qed
  show ?case using v e m by blast
qed

theorem JSON_parse_fuel: "JSON_parse src \<noteq> Inl OutOfFuel"
proof -
  have "2 * length (skip_ws src) < 2 * length src + 1"
    using skip_ws_length [of src] by simp
  then have "parse_value (2 * length src + 1) (skip_ws src) \<noteq> Inl OutOfFuel"
    using parse_enough_fuel [of "2 * length src + 1"] by blast
  then show ?thesis
    by (auto simp: JSON_parse_def split: sum.splits)
qed


subsection \<open>Values that have the interfaces\<close>

lemma conforms_wf:
  assumes sf: "sound_fields flds" and c: "conforms flds v"
  shows "wf_json v"
proof -
  obtain ps where v: "v = JObject ps" using c by (cases v) (simp_all add: conforms_def)
  have d: "distinct (map fst ps)"
    and keys: "\<forall>p \<in> set ps. fst p \<in> set (map fst flds)"
    and ok: "\<forall>f \<in> set flds. field_ok ps f"
    using c by (simp_all add: conforms_def v list_all_iff)
  have "\<not> digits_only (fst p) \<and> wf_json (snd p)" if "p \<in> set ps" for p
  proof -
    have "fst p \<in> fst ` set flds" using keys that by simp
    then obtain f where f: "f \<in> set flds" "fst f = fst p" by (metis imageE)
    have "map_of ps (fst p) = Some (snd p)" using d that by (cases p) simp
    then have "snd (snd f) (snd p)" using ok f by (auto simp: field_ok_def)
    moreover have "\<not> digits_only (fst f)" "\<forall>x. snd (snd f) x \<longrightarrow> wf_json x"
      using sf f(1) by (auto simp: sound_fields_def list_all_iff)
    ultimately show ?thesis using f(2) by auto
  qed
  then show ?thesis using d by (simp add: v list_all_iff)
qed

lemma is_string_wf: "is_string x \<Longrightarrow> wf_json x"
  by (cases x) (simp_all add: is_string_def)

lemma is_boolean_wf: "is_boolean x \<Longrightarrow> wf_json x"
  by (cases x) (simp_all add: is_boolean_def)

lemma is_one_of_wf: "is_one_of opts x \<Longrightarrow> wf_json x"
  by (cases x) (simp_all add: is_one_of_def)

lemma is_array_of_wf: "(\<And>y. P y \<Longrightarrow> wf_json y) \<Longrightarrow> is_array_of P x \<Longrightarrow> wf_json x"
  by (cases x) (auto simp: is_array_of_def list_all_iff)

lemma sound_TextElementStyle: "sound_fields TextElementStyle_fields"
  by (simp add: sound_fields_def TextElementStyle_fields_def digits_only_def is_string_wf)

lemma sound_Typography: "sound_fields Typography_fields"
  by (simp add: sound_fields_def Typography_fields_def digits_only_def conforms_wf [OF sound_TextElementStyle])

lemma sound_Style: "sound_fields Style_fields"
  by (simp add: sound_fields_def Style_fields_def digits_only_def is_string_wf is_one_of_wf
      conforms_wf [OF sound_Typography])

lemma sound_Button: "sound_fields Button_fields"
  by (simp add: sound_fields_def Button_fields_def digits_only_def is_string_wf)

lemma sound_Item: "sound_fields Item_fields"
  by (simp add: sound_fields_def Item_fields_def digits_only_def is_string_wf)

lemma sound_Content: "sound_fields Content_fields"
  by (simp add: sound_fields_def Content_fields_def digits_only_def is_string_wf conforms_wf [OF sound_Button]
      is_array_of_wf [of "conforms Item_fields", OF conforms_wf [OF sound_Item]])

lemma sound_LayoutSection: "sound_fields LayoutSection_fields"
  by (simp add: sound_fields_def LayoutSection_fields_def digits_only_def is_string_wf is_one_of_wf
      conforms_wf [OF sound_Content] conforms_wf [OF sound_Style])

lemma sound_AccessibilitySettings: "sound_fields AccessibilitySettings_fields"
  by (simp add: sound_fields_def AccessibilitySettings_fields_def digits_only_def is_boolean_wf)

lemma sound_DesignSystem: "sound_fields DesignSystem_fields"
  by (simp add: sound_fields_def DesignSystem_fields_def digits_only_def is_string_wf
      conforms_wf [OF sound_AccessibilitySettings])

lemma is_Document_wf:
  assumes "is_Document secs ds"
  shows "wf_json (JObject [(js ''sections'', JArray secs), (js ''designSystem'', ds)])"
proof -
  have "list_all wf_json secs"
    using assms conforms_wf [OF sound_LayoutSection] by (auto simp: is_Document_def list_all_iff)
  moreover have "wf_json ds"
    using assms conforms_wf [OF sound_DesignSystem] by (simp add: is_Document_def)
  ultimately show ?thesis by (simp add: digits_only_def)
qed

lemmas schema_defs =
  is_Document_def conforms_def field_ok_def is_string_def is_boolean_def is_one_of_def
  is_array_of_def LayoutSection_fields_def Content_fields_def Style_fields_def
  Typography_fields_def TextElementStyle_fields_def Button_fields_def Item_fields_def
  DesignSystem_fields_def AccessibilitySettings_fields_def SECTION_TYPES_def

lemma example_is_Document:
  "is_Document [example_section_value, unicode_section_value] default_designSystem_value"
  by (simp add: schema_defs example_section_value_def unicode_section_value_def
      example_content_value_def example_style_value_def default_designSystem_value_def)

text \<open>
  Claim C1. Parsing the JSON export of a Document gives back the object with the same
  sections, in the same order and with the same properties, and the same design system,
  whatever code units its strings hold.
\<close>

theorem export_json_roundtrip:
  assumes "is_Document secs ds"
  shows "JSON_parse (export_text g Json secs ds)
           = Inr (JObject [(js ''sections'', JArray secs), (js ''designSystem'', ds)])"
proof -
  have "export_text g Json secs ds
          = JSON_stringify (JObject [(js ''sections'', JArray secs), (js ''designSystem'', ds)])"
    by (simp add: export_text_def canonicalJson_def)
  then show ?thesis
    using is_Document_wf [OF assms] by (simp only: JSON_parse_stringify)
qed

theorem export_json_roundtrip_witness:
  "is_Document [example_section_value, unicode_section_value] default_designSystem_value
   \<and> JSON_parse (export_text (\<lambda>s d. []) Json [example_section_value, unicode_section_value]
                     default_designSystem_value)
       = Inr (JObject [(js ''sections'', JArray [example_section_value, unicode_section_value]),
                       (js ''designSystem'', default_designSystem_value)])"
  using example_is_Document export_json_roundtrip [OF example_is_Document, of "\<lambda>s d. []"]
  by (simp only: simp_thms)


section \<open>Shape of the JSON export\<close>

lemma join_split:
  "rest \<noteq> [] \<Longrightarrow>
     join sep (xs @ p # rest) = (if xs = [] then [] else join sep xs @ sep) @ p @ sep @ join sep rest"
proof (induction xs)
  case Nil
  then show ?case by (cases rest) simp_all
next
  case (Cons x xs)
  then show ?case by (cases xs) simp_all
qed

lemma join_last:
  "join sep (xs @ [p]) = (if xs = [] then [] else join sep xs @ sep) @ p"
proof (induction xs)
  case Nil
  then show ?case by simp
next
  case (Cons x xs)
  then show ?case by (cases xs) simp_all
qed

lemma join_member_order:
  "\<exists>a b c. join sep (map f (xs @ p # ys @ q # zs)) = a @ f p @ b @ f q @ c"
proof -
  let ?rest = "map f ys @ f q # map f zs"
  have ne: "?rest \<noteq> []" by simp
  have one: "join sep (map f xs @ f p # ?rest)
               = (if map f xs = [] then [] else join sep (map f xs) @ sep) @ f p @ sep @ join sep ?rest"
    using ne by (rule join_split)
  have "\<exists>b c. join sep ?rest = b @ f q @ c"
  proof (cases "map f zs = []")
    case True
    then show ?thesis using join_last [of sep "map f ys" "f q"] by (metis append_Nil2)
  next
    case False
    then show ?thesis using join_split [of "map f zs" sep "map f ys" "f q"] by metis
  qed
  then obtain b c where two: "join sep ?rest = b @ f q @ c" by blast
  have "join sep (map f (xs @ p # ys @ q # zs))
          = ((if map f xs = [] then [] else join sep (map f xs) @ sep)) @ f p @ (sep @ b) @ f q @ c"
    using one two by simp
  then show ?thesis by blast
qed

lemma SerializeJSONProperty_members:
  "SerializeJSONProperty ind (JObject (p # ps)) =
     js ''{'' @ [cu CHR 0x0A] @ ind @ js ''  ''
       @ join (js '','' @ [cu CHR 0x0A] @ ind @ js ''  '') (map (member_text (ind @ js ''  '')) (p # ps))
       @ [cu CHR 0x0A] @ ind @ js ''}''"
  by (simp add: SerializeJSONProperty_object gap_def del: SerializeJSONProperty.simps)

lemma SerializeJSONProperty_elements:
  "SerializeJSONProperty ind (JArray (x # xs)) =
     js ''['' @ [cu CHR 0x0A] @ ind @ js ''  ''
       @ join (js '','' @ [cu CHR 0x0A] @ ind @ js ''  '') (map (SerializeJSONProperty (ind @ js ''  '')) (x # xs))
       @ [cu CHR 0x0A] @ ind @ js '']''"
  by (simp add: gap_def)

lemma member_order:
  "\<exists>a b c. SerializeJSONProperty ind (JObject (xs @ p # ys @ q # zs))
     = a @ member_text (ind @ js ''  '') p @ b @ member_text (ind @ js ''  '') q @ c"
proof -
  let ?ps = "xs @ p # ys @ q # zs"
  obtain a b c where j: "join (js '','' @ [cu CHR 0x0A] @ (ind @ gap)) (map (member_text (ind @ gap)) ?ps)
      = a @ member_text (ind @ gap) p @ b @ member_text (ind @ gap) q @ c"
    using join_member_order [of "(js '','') @ [cu CHR 0x0A] @ (ind @ gap)" "member_text (ind @ gap)" xs p ys q zs]
    by (elim exE)
  have ne: "(?ps = []) = False" by simp
  have eq: "SerializeJSONProperty ind (JObject ?ps)
          = (js ''{'' @ [cu CHR 0x0A] @ (ind @ gap) @ a) @ member_text (ind @ gap) p @ b
              @ member_text (ind @ gap) q @ (c @ [cu CHR 0x0A] @ ind @ js ''}'')"
    by (simp only: SerializeJSONProperty_object ne if_False j append_assoc)
  show ?thesis
    unfolding eq unfolding gap_def by (intro exI) (rule refl)
qed

text \<open>
  Claim C5, as the code has it. The JSON export is the object with the members
  \<^verbatim>\<open>sections\<close> and \<^verbatim>\<open>designSystem\<close>, in this order, each on a line indented by two
  spaces. At every depth a non-empty object or array puts each member or element on a line
  of its own, indented by two spaces more than the line that opens it, and members come in
  the property order of the object itself: of two members the one that is earlier in the
  object is earlier in the text. A section whose properties are in the order
  \<^verbatim>\<open>id\<close>, \<^verbatim>\<open>type\<close>, \<^verbatim>\<open>content\<close>, \<^verbatim>\<open>style\<close> is written with \<^verbatim>\<open>content\<close>
  before \<^verbatim>\<open>style\<close>.
\<close>

theorem export_json_shape:
  "export_text g Json secs ds =
     js ''{'' @ [cu CHR 0x0A]
       @ js ''  '' @ QuoteJSONString (js ''sections'') @ js '': '' @ SerializeJSONProperty (js ''  '') (JArray secs)
       @ js '','' @ [cu CHR 0x0A]
       @ js ''  '' @ QuoteJSONString (js ''designSystem'') @ js '': '' @ SerializeJSONProperty (js ''  '') ds
       @ [cu CHR 0x0A] @ js ''}''
   \<and> SerializeJSONProperty ind (JObject (p # ps)) =
       js ''{'' @ [cu CHR 0x0A] @ ind @ js ''  ''
         @ join (js '','' @ [cu CHR 0x0A] @ ind @ js ''  '') (map (member_text (ind @ js ''  '')) (p # ps))
         @ [cu CHR 0x0A] @ ind @ js ''}''
   \<and> SerializeJSONProperty ind (JArray (x # xs)) =
       js ''['' @ [cu CHR 0x0A] @ ind @ js ''  ''
         @ join (js '','' @ [cu CHR 0x0A] @ ind @ js ''  '') (map (SerializeJSONProperty (ind @ js ''  '')) (x # xs))
         @ [cu CHR 0x0A] @ ind @ js '']''
   \<and> (\<exists>a b c. SerializeJSONProperty ind (JObject (ms @ m1 # ns @ m2 # os))
          = a @ member_text (ind @ js ''  '') m1 @ b @ member_text (ind @ js ''  '') m2 @ c)
   \<and> SerializeJSONProperty ind
        (JObject [(js ''id'', i), (js ''type'', t), (js ''content'', c), (js ''style'', s)]) =
       js ''{'' @ [cu CHR 0x0A]
         @ ind @ js ''  '' @ QuoteJSONString (js ''id'') @ js '': '' @ SerializeJSONProperty (ind @ js ''  '') i
         @ js '','' @ [cu CHR 0x0A]
         @ ind @ js ''  '' @ QuoteJSONString (js ''type'') @ js '': '' @ SerializeJSONProperty (ind @ js ''  '') t
         @ js '','' @ [cu CHR 0x0A]
         @ ind @ js ''  '' @ QuoteJSONString (js ''content'') @ js '': '' @ SerializeJSONProperty (ind @ js ''  '') c
         @ js '','' @ [cu CHR 0x0A]
         @ ind @ js ''  '' @ QuoteJSONString (js ''style'') @ js '': '' @ SerializeJSONProperty (ind @ js ''  '') s
         @ [cu CHR 0x0A] @ ind @ js ''}''"
proof (intro conjI)
  show "export_text g Json secs ds =
     js ''{'' @ [cu CHR 0x0A]
       @ js ''  '' @ QuoteJSONString (js ''sections'') @ js '': '' @ SerializeJSONProperty (js ''  '') (JArray secs)
       @ js '','' @ [cu CHR 0x0A]
       @ js ''  '' @ QuoteJSONString (js ''designSystem'') @ js '': '' @ SerializeJSONProperty (js ''  '') ds
       @ [cu CHR 0x0A] @ js ''}''"
    by (simp add: export_text_def canonicalJson_def JSON_stringify_def SerializeJSONProperty_object
        member_text_def gap_def del: SerializeJSONProperty.simps)
  show "SerializeJSONProperty ind (JObject (p # ps)) =
       js ''{'' @ [cu CHR 0x0A] @ ind @ js ''  ''
         @ join (js '','' @ [cu CHR 0x0A] @ ind @ js ''  '') (map (member_text (ind @ js ''  '')) (p # ps))
         @ [cu CHR 0x0A] @ ind @ js ''}''"
    by (rule SerializeJSONProperty_members)
  show "SerializeJSONProperty ind (JArray (x # xs)) =
       js ''['' @ [cu CHR 0x0A] @ ind @ js ''  ''
         @ join (js '','' @ [cu CHR 0x0A] @ ind @ js ''  '') (map (SerializeJSONProperty (ind @ js ''  '')) (x # xs))
         @ [cu CHR 0x0A] @ ind @ js '']''"
    by (rule SerializeJSONProperty_elements)
  show "\<exists>a b c. SerializeJSONProperty ind (JObject (ms @ m1 # ns @ m2 # os))
          = a @ member_text (ind @ js ''  '') m1 @ b @ member_text (ind @ js ''  '') m2 @ c"
    by (rule member_order)
  show "SerializeJSONProperty ind
        (JObject [(js ''id'', i), (js ''type'', t), (js ''content'', c), (js ''style'', s)]) =
       js ''{'' @ [cu CHR 0x0A]
         @ ind @ js ''  '' @ QuoteJSONString (js ''id'') @ js '': '' @ SerializeJSONProperty (ind @ js ''  '') i
         @ js '','' @ [cu CHR 0x0A]
         @ ind @ js ''  '' @ QuoteJSONString (js ''type'') @ js '': '' @ SerializeJSONProperty (ind @ js ''  '') t
         @ js '','' @ [cu CHR 0x0A]
         @ ind @ js ''  '' @ QuoteJSONString (js ''content'') @ js '': '' @ SerializeJSONProperty (ind @ js ''  '') c
         @ js '','' @ [cu CHR 0x0A]
         @ ind @ js ''  '' @ QuoteJSONString (js ''style'') @ js '': '' @ SerializeJSONProperty (ind @ js ''  '') s
         @ [cu CHR 0x0A] @ ind @ js ''}''"
    by (simp add: SerializeJSONProperty_object member_text_def gap_def del: SerializeJSONProperty.simps)
qed

text \<open>
  The claim as stated fails on a Document whose section holds \<^verbatim>\<open>style\<close> before
  \<^verbatim>\<open>content\<close>: the export writes them in that order.
\<close>

theorem style_before_content_counterexample:
  "is_Document [style_first_section_value] default_designSystem_value
   \<and> comes_before (QuoteJSONString (js ''style'')) (QuoteJSONString (js ''content''))
        (export_text (\<lambda>s d. []) Json [style_first_section_value] default_designSystem_value)
   \<and> \<not> comes_before (QuoteJSONString (js ''content'')) (QuoteJSONString (js ''style''))
        (export_text (\<lambda>s d. []) Json [style_first_section_value] default_designSystem_value)"
proof -
  have e: "export_text (\<lambda>s d. []) Json [style_first_section_value] default_designSystem_value
             = canonicalJson [style_first_section_value] default_designSystem_value"
    by (simp add: export_text_def)
  have d: "is_Document [style_first_section_value] default_designSystem_value"
    by (simp add: schema_defs style_first_section_value_def
        example_content_value_def example_style_value_def default_designSystem_value_def)
  have o: "comes_before (QuoteJSONString (js ''style'')) (QuoteJSONString (js ''content''))
             (canonicalJson [style_first_section_value] default_designSystem_value)
           \<and> \<not> comes_before (QuoteJSONString (js ''content'')) (QuoteJSONString (js ''style''))
             (canonicalJson [style_first_section_value] default_designSystem_value)"
    by (simp add: canonicalJson_def JSON_stringify_def QuoteJSONString_def quote_char_def
        is_lead_def is_trail_def gap_def comes_before_def style_first_section_value_def
        example_content_value_def example_style_value_def default_designSystem_value_def)
  show ?thesis unfolding e using d o by (simp only: simp_thms)
qed

end
